theory Spec2Isabelle
  imports Main
begin

section \<open>JavaScript values\<close>

text \<open>
  The client of TheDogAPI is the module \<^verbatim>\<open>api.js\<close>, of which the repository holds
  two revisions: one that asks for a batch of items per request and can look up the
  details of an item (\<^verbatim>\<open>src/unnamed/part_002\<close>), modelled first, and one that asks for
  a single item (\<^verbatim>\<open>src/src/api.js\<close>), modelled after it. Both are JavaScript: what the
  network returns is parsed JSON, and what the caller passes as ban list is an arbitrary
  value (the application restores it from local storage with \<^verbatim>\<open>JSON.parse\<close>). Values
  are therefore modelled untyped, as the language has them.

  \<^item> A string is a list of 8-bit characters, read as the UTF-16 code units of a string
    whose code points are all below U+0100.
  \<^item> A number is held as the text that \<^verbatim>\<open>String\<close> gives for it
    (\<open>''31''\<close>, \<open>''0.5''\<close>, \<open>''NaN''\<close>): the client never computes with a
    number of the data, it only tests it for truthiness and converts it to text.
  \<^item> An object is the list of its own properties; the first binding of a name is the
    one in force.
\<close>

datatype jsval =
    JUndefined
  | JNull
  | JBool bool
  | JNum string
  | JStr string
  | JArr "jsval list"
  | JObj "(string \<times> jsval) list"

text \<open>What the client can throw, and what it can be rejected with.\<close>

datatype error =
    CapabilityError   \<comment> \<open>\<^verbatim>\<open>fetch is not available in this environment\<close>\<close>
  | TransportError    \<comment> \<open>\<^verbatim>\<open>fetch\<close> rejected: network failure, or the abort of the timeout\<close>
  | ApiError string   \<comment> \<open>\<^verbatim>\<open>TheDogAPI error: <status> <statusText>\<close>\<close>
  | BodyError         \<comment> \<open>\<^verbatim>\<open>res.json()\<close> rejected\<close>
  | TypeError         \<comment> \<open>a property of null or undefined, a method that is not there\<close>
  | ExhaustionError   \<comment> \<open>\<^verbatim>\<open>No non-banned result found after maximum attempts\<close>\<close>

text \<open>An expression either throws or has a value; sequencing stops at the first throw.\<close>

definition and_then :: "error + 'a \<Rightarrow> ('a \<Rightarrow> error + 'b) \<Rightarrow> error + 'b" where
  "and_then m f = (case m of Inl e \<Rightarrow> Inl e | Inr v \<Rightarrow> f v)"

text \<open>\<^verbatim>\<open>!!v\<close>: the falsy values are undefined, null, false, 0, NaN and the empty string.\<close>

fun truthy :: "jsval \<Rightarrow> bool" where
  "truthy JUndefined = False"
| "truthy JNull = False"
| "truthy (JBool b) = b"
| "truthy (JNum n) = (n \<noteq> ''0'' \<and> n \<noteq> ''NaN'')"
| "truthy (JStr s) = (s \<noteq> [])"
| "truthy (JArr xs) = True"
| "truthy (JObj kvs) = True"

text \<open>\<^verbatim>\<open>v == null\<close>\<close>

fun nullish :: "jsval \<Rightarrow> bool" where
  "nullish JUndefined = True"
| "nullish JNull = True"
| "nullish v = False"

text \<open>
  \<^verbatim>\<open>v.k\<close> and \<^verbatim>\<open>v[k]\<close> for a property name \<open>k\<close>. Reading a property of null or
  undefined throws. The names the client reads (\<open>id\<close>, \<open>url\<close>, \<open>breeds\<close>,
  \<open>name\<close>, \<open>temperament\<close>, \<open>life_span\<close>, \<open>weight\<close>, \<open>imperial\<close>,
  \<open>metric\<close>, \<open>attributes\<close>, \<open>hasBreed\<close>, \<open>breed\<close>) are no properties of the
  prototypes of booleans, numbers, strings, arrays or objects, so on those the result is
  undefined unless the object has the property itself.
\<close>

fun get :: "jsval \<Rightarrow> string \<Rightarrow> error + jsval" where
  "get JUndefined k = Inl TypeError"
| "get JNull k = Inl TypeError"
| "get (JObj kvs) k = Inr (case map_of kvs k of None \<Rightarrow> JUndefined | Some v \<Rightarrow> v)"
| "get v k = Inr JUndefined"

text \<open>\<^verbatim>\<open>v[0]\<close>: the first element of an array, the first character of a string.\<close>

fun at0 :: "jsval \<Rightarrow> error + jsval" where
  "at0 JUndefined = Inl TypeError"
| "at0 JNull = Inl TypeError"
| "at0 (JArr xs) = Inr (case xs of [] \<Rightarrow> JUndefined | x # _ \<Rightarrow> x)"
| "at0 (JStr s) = Inr (case s of [] \<Rightarrow> JUndefined | c # _ \<Rightarrow> JStr [c])"
| "at0 (JObj kvs) = get (JObj kvs) ''0''"
| "at0 v = Inr JUndefined"

text \<open>\<^verbatim>\<open>a || b\<close> and \<^verbatim>\<open>a && b\<close>: the right operand is evaluated only when needed.\<close>

definition js_or :: "error + jsval \<Rightarrow> error + jsval \<Rightarrow> error + jsval" where
  "js_or a b = and_then a (\<lambda>v. if truthy v then Inr v else b)"

definition js_and :: "error + jsval \<Rightarrow> error + jsval \<Rightarrow> error + jsval" where
  "js_and a b = and_then a (\<lambda>v. if truthy v then b else Inr v)"

text \<open>The first throw of a list of results, or all their values.\<close>

fun collect :: "(error + 'a) list \<Rightarrow> error + 'a list" where
  "collect [] = Inr []"
| "collect (r # rs) = and_then r (\<lambda>v. and_then (collect rs) (\<lambda>vs. Inr (v # vs)))"

fun join_comma :: "string list \<Rightarrow> string" where
  "join_comma [] = []"
| "join_comma [s] = s"
| "join_comma (s # t # ts) = s @ '','' @ join_comma (t # ts)"

text \<open>
  \<^verbatim>\<open>String(v)\<close>. An array is the join of its elements with commas, null and
  undefined elements giving the empty text. An ordinary object is
  \<^verbatim>\<open>[object Object]\<close>; an object of the data that has a property \<open>toString\<close> of
  its own hides the method of the prototype behind a value that cannot be called, and
  the conversion throws.
\<close>

fun toStr :: "jsval \<Rightarrow> error + string" where
  "toStr JUndefined = Inr ''undefined''"
| "toStr JNull = Inr ''null''"
| "toStr (JBool b) = Inr (if b then ''true'' else ''false'')"
| "toStr (JNum n) = Inr n"
| "toStr (JStr s) = Inr s"
| "toStr (JArr xs) =
     and_then (collect (map (\<lambda>x. if nullish x then Inr [] else toStr x) xs))
       (\<lambda>ss. Inr (join_comma ss))"
| "toStr (JObj kvs) =
     (if map_of kvs ''toString'' = None then Inr ''[object Object]'' else Inl TypeError)"

text \<open>
  \<^verbatim>\<open>s.trim()\<close> and \<^verbatim>\<open>s.toLowerCase()\<close> on the code units below U+0100: white
  space is tab, line feed, vertical tab, form feed, carriage return, space and the
  no-break space; the upper-case letters are A to Z and U+00C0 to U+00DE without the
  multiplication sign U+00D7, each 32 below its lower-case letter.
\<close>

definition is_space :: "char \<Rightarrow> bool" where
  "is_space c = (of_char c \<in> {9, 10, 11, 12, 13, 32, 160 :: nat})"

definition trim :: "string \<Rightarrow> string" where
  "trim s = rev (dropWhile is_space (rev (dropWhile is_space s)))"

definition lower_char :: "char \<Rightarrow> char" where
  "lower_char c =
     (let n = of_char c :: nat
      in if (65 \<le> n \<and> n \<le> 90) \<or> (192 \<le> n \<and> n \<le> 222 \<and> n \<noteq> 215)
         then char_of (n + 32) else c)"

definition toLowerCase :: "string \<Rightarrow> string" where
  "toLowerCase s = map lower_char s"

text \<open>\<^verbatim>\<open>s.split(',')\<close>: the pieces between the commas; the empty string has one piece.\<close>

fun split_comma :: "string \<Rightarrow> string list" where
  "split_comma [] = [[]]"
| "split_comma (c # cs) =
     (if c = CHR '','' then [] # split_comma cs
      else (c # hd (split_comma cs)) # tl (split_comma cs))"

section \<open>The normalizer\<close>

text \<open>
  \<^verbatim>\<open>Array.isArray(imgObj.breeds) && imgObj.breeds.length > 0 ? imgObj.breeds[0] : null\<close>
\<close>

definition first_breed :: "jsval \<Rightarrow> error + jsval" where
  "first_breed imgObj =
     and_then (get imgObj ''breeds'')
       (\<lambda>breeds. case breeds of
            JArr xs \<Rightarrow> if length xs > 0 then at0 breeds else Inr JNull
          | _ \<Rightarrow> Inr JNull)"

text \<open>\<^verbatim>\<open>breedObj ? (e || '') : ''\<close>, the shape of each attribute of the record.\<close>

definition or_empty :: "jsval \<Rightarrow> error + jsval \<Rightarrow> error + jsval" where
  "or_empty breedObj e = (if truthy breedObj then js_or e (Inr (JStr [])) else Inr (JStr []))"

text \<open>
  \<^verbatim>\<open>normalizeImageObj\<close>: null for a falsy item, and otherwise the record
  \<^verbatim>\<open>{ id, imageUrl, attributes, hasBreed }\<close>. An item with no breed object still
  gives a record, with empty attributes and \<open>hasBreed\<close> false.
\<close>

definition normalizeImageObj :: "jsval \<Rightarrow> error + jsval" where
  "normalizeImageObj imgObj =
     (if \<not> truthy imgObj then Inr JNull
      else
        and_then
          (js_or
            (js_or (get imgObj ''id'')
              (js_and
                (js_and (get imgObj ''breeds'') (and_then (get imgObj ''breeds'') at0))
                (and_then (and_then (get imgObj ''breeds'') at0) (\<lambda>b. get b ''id''))))
            (Inr JNull)) (\<lambda>id.
        and_then (js_or (get imgObj ''url'') (Inr JNull)) (\<lambda>imageUrl.
        and_then (first_breed imgObj) (\<lambda>breedObj.
        and_then (or_empty breedObj (get breedObj ''name'')) (\<lambda>breed.
        and_then (or_empty breedObj (get breedObj ''temperament'')) (\<lambda>temperament.
        and_then (or_empty breedObj (get breedObj ''life_span'')) (\<lambda>life_span.
        and_then
          (or_empty breedObj
            (js_and (get breedObj ''weight'')
              (js_or (and_then (get breedObj ''weight'') (\<lambda>w. get w ''imperial''))
                     (and_then (get breedObj ''weight'') (\<lambda>w. get w ''metric''))))) (\<lambda>weight.
        Inr (JObj
          [(''id'', id),
           (''imageUrl'', imageUrl),
           (''attributes'',
              JObj [(''breed'', breed), (''temperament'', temperament),
                    (''life_span'', life_span), (''weight'', weight)]),
           (''hasBreed'', JBool (truthy breedObj))])))))))))"

section \<open>The ban matcher\<close>

text \<open>
  The helper \<^verbatim>\<open>eq\<close> of \<^verbatim>\<open>isBanned\<close>: never a match when either side is null or
  undefined, and otherwise the two texts compared trimmed and in lower case.
\<close>

definition eq :: "jsval \<Rightarrow> jsval \<Rightarrow> error + bool" where
  "eq a b =
     (if nullish a \<or> nullish b then Inr False
      else and_then (toStr a) (\<lambda>sa. and_then (toStr b) (\<lambda>sb.
             Inr (toLowerCase (trim sa) = toLowerCase (trim sb)))))"

text \<open>
  \<^verbatim>\<open>for (const b of bannedVals) { if (eq(attrs[key], b)) return true; }\<close>:
  true is the early return, false the end of the loop.
\<close>

fun any_eq :: "jsval \<Rightarrow> string \<Rightarrow> jsval list \<Rightarrow> error + bool" where
  "any_eq attrs key [] = Inr False"
| "any_eq attrs key (b # bs) =
     (case and_then (get attrs key) (\<lambda>a. eq a b) of
        Inl e \<Rightarrow> Inl e
      | Inr r \<Rightarrow> if r then Inr True else any_eq attrs key bs)"

text \<open>
  The loop over the scalar keys. A key takes part only when the ban list holds a
  non-empty array under it.
\<close>

fun scalar_keys :: "string list \<Rightarrow> jsval \<Rightarrow> jsval \<Rightarrow> error + bool" where
  "scalar_keys [] attrs banList = Inr False"
| "scalar_keys (key # keys) attrs banList =
     (case get banList key of
        Inl e \<Rightarrow> Inl e
      | Inr bannedVals \<Rightarrow>
          (case bannedVals of
             JArr bs \<Rightarrow>
               if length bs > 0 then
                 (case any_eq attrs key bs of
                    Inl e \<Rightarrow> Inl e
                  | Inr r \<Rightarrow> if r then Inr True else scalar_keys keys attrs banList)
               else scalar_keys keys attrs banList
           | _ \<Rightarrow> scalar_keys keys attrs banList))"

text \<open>
  \<^verbatim>\<open>temperament.split(',').map(t => t.trim().toLowerCase()).filter(Boolean)\<close>:
  only a string has the method \<open>split\<close>; the empty tokens are dropped.
\<close>

definition tokens_of :: "jsval \<Rightarrow> error + string list" where
  "tokens_of temperament =
     (case temperament of
        JStr s \<Rightarrow> Inr (filter (\<lambda>t. t \<noteq> []) (map (\<lambda>t. toLowerCase (trim t)) (split_comma s)))
      | _ \<Rightarrow> Inl TypeError)"

text \<open>
  \<^verbatim>\<open>for (const banned of banList.temperament) { ... if (tokens.includes(b)) return true; }\<close>
\<close>

fun any_token :: "string list \<Rightarrow> jsval list \<Rightarrow> error + bool" where
  "any_token tokens [] = Inr False"
| "any_token tokens (banned # rest) =
     (case toStr banned of
        Inl e \<Rightarrow> Inl e
      | Inr sb \<Rightarrow>
          if toLowerCase (trim sb) \<in> set tokens then Inr True else any_token tokens rest)"

definition temperament_banned :: "jsval \<Rightarrow> jsval \<Rightarrow> error + bool" where
  "temperament_banned attrs banList =
     and_then (get banList ''temperament'') (\<lambda>bannedVals.
       case bannedVals of
         JArr bs \<Rightarrow>
           if length bs > 0 then
             and_then (js_or (get attrs ''temperament'') (Inr (JStr []))) (\<lambda>temperament.
             and_then (tokens_of temperament) (\<lambda>tokens. any_token tokens bs))
           else Inr False
       | _ \<Rightarrow> Inr False)"

text \<open>The default \<^verbatim>\<open>banList = {}\<close> of a parameter: it stands in for undefined only.\<close>

definition or_default :: "jsval \<Rightarrow> jsval" where
  "or_default banList = (if banList = JUndefined then JObj [] else banList)"

text \<open>
  \<^verbatim>\<open>isBanned(item, banList = {})\<close>: a missing item counts as banned; a record
  without attributes is matched as one with the empty object for attributes.
\<close>

definition isBanned :: "jsval \<Rightarrow> jsval \<Rightarrow> error + bool" where
  "isBanned item banList0 =
     (let banList = or_default banList0 in
      if \<not> truthy item then Inr True
      else
        and_then (js_or (get item ''attributes'') (Inr (JObj []))) (\<lambda>attrs.
        and_then (scalar_keys [''breed'', ''life_span'', ''weight''] attrs banList) (\<lambda>r.
          if r then Inr True else temperament_banned attrs banList)))"

section \<open>The network\<close>

text \<open>
  What the client does to the world, in order: a request to the search endpoint, a
  request for the details of one image (with the text of its id), and the pause of
  300 ms. The network is any function from the history of events, the request last, to
  what \<^verbatim>\<open>fetchWithTimeout\<close> and \<^verbatim>\<open>res.json()\<close> then give: the call is rejected
  (a transport failure, or the abort after the timeout), or there is a response with its
  \<open>ok\<close> flag, its status text and its parsed body (\<open>None\<close> when parsing rejects).
  The access key of the request header and the length of the timeout have no part in the
  control flow: the network function stands for every outcome they can lead to. The log
  lines of \<^verbatim>\<open>console.debug\<close> are not recorded.
\<close>

datatype event = Primary | Detail string | Delay

datatype reply = Rejected | Response bool string "jsval option"

type_synonym network = "event list \<Rightarrow> reply"

section \<open>The retrieval loop\<close>

text \<open>
  The inner \<^verbatim>\<open>try\<close> of the scan: the detail lookup of a candidate without breed
  data. Everything thrown inside is caught and ignored, so the result is the enriched
  record or nothing. Building the URL converts the id to text, which can throw before
  any request is made.
\<close>

definition enrich :: "network \<Rightarrow> jsval \<Rightarrow> jsval \<Rightarrow> event list \<Rightarrow> jsval option \<times> event list" where
  "enrich net banList normalized tr =
     (case and_then (get normalized ''id'') toStr of
        Inl e \<Rightarrow> (None, tr)
      | Inr i \<Rightarrow>
          (let tr' = tr @ [Detail i] in
           case net tr' of
             Rejected \<Rightarrow> (None, tr')
           | Response ok status body \<Rightarrow>
               if \<not> ok then (None, tr')
               else
                 (case body of
                    None \<Rightarrow> (None, tr')
                  | Some detailObj \<Rightarrow>
                      (case normalizeImageObj detailObj of
                         Inl e \<Rightarrow> (None, tr')
                       | Inr enriched \<Rightarrow>
                           if \<not> truthy enriched then (None, tr')
                           else
                             (case get enriched ''hasBreed'' of
                                Inl e \<Rightarrow> (None, tr')
                              | Inr hasBreed \<Rightarrow>
                                  if \<not> truthy hasBreed then (None, tr')
                                  else
                                    (case isBanned enriched banList of
                                       Inl e \<Rightarrow> (None, tr')
                                     | Inr banned \<Rightarrow>
                                         if banned then (None, tr')
                                         else (Some enriched, tr')))))))"

text \<open>
  The \<^verbatim>\<open>for\<close> loop over one batch, with the fallback and the history as its state.
  It ends in a \<^verbatim>\<open>return\<close>, in a throw (to the \<^verbatim>\<open>catch\<close> of the attempt), or at
  the end of the batch with the fallback it holds.
\<close>

datatype scanned = Returned jsval | Threw error | Completed jsval

fun scan :: "network \<Rightarrow> jsval \<Rightarrow> jsval list \<Rightarrow> jsval \<Rightarrow> event list \<Rightarrow> scanned \<times> event list" where
  "scan net banList [] fallback tr = (Completed fallback, tr)"
| "scan net banList (imgObj # rest) fallback tr =
     (case normalizeImageObj imgObj of
        Inl e \<Rightarrow> (Threw e, tr)
      | Inr normalized \<Rightarrow>
          if \<not> truthy normalized then scan net banList rest fallback tr
          else
            (case isBanned normalized banList of
               Inl e \<Rightarrow> (Threw e, tr)
             | Inr banned \<Rightarrow>
                 if banned then scan net banList rest fallback tr
                 else
                   (case get normalized ''hasBreed'' of
                      Inl e \<Rightarrow> (Threw e, tr)
                    | Inr hasBreed \<Rightarrow>
                        if truthy hasBreed then (Returned normalized, tr)
                        else
                          (case enrich net banList normalized tr of
                             (Some enriched, tr') \<Rightarrow> (Returned enriched, tr')
                           | (None, tr') \<Rightarrow>
                               scan net banList rest
                                 (if \<not> truthy fallback then normalized else fallback) tr'))))"

text \<open>
  The body of the outer \<^verbatim>\<open>try\<close>, one attempt: the primary request, the checks of
  the response, the scan and the decision on the fallback. An empty or malformed batch
  goes on to the next attempt at once; a batch with nothing usable pauses first.
\<close>

datatype attempted = Accepted jsval | Raised error | Retry

definition attempt_body :: "network \<Rightarrow> jsval \<Rightarrow> event list \<Rightarrow> attempted \<times> event list" where
  "attempt_body net banList tr =
     (let tr1 = tr @ [Primary] in
      case net tr1 of
        Rejected \<Rightarrow> (Raised TransportError, tr1)
      | Response ok status body \<Rightarrow>
          if \<not> ok then (Raised (ApiError status), tr1)
          else
            (case body of
               None \<Rightarrow> (Raised BodyError, tr1)
             | Some data \<Rightarrow>
                 (case data of
                    JArr items \<Rightarrow>
                      if length items = 0 then (Retry, tr1)
                      else
                        (case scan net banList items JNull tr1 of
                           (Returned r, tr2) \<Rightarrow> (Accepted r, tr2)
                         | (Threw e, tr2) \<Rightarrow> (Raised e, tr2)
                         | (Completed fallback, tr2) \<Rightarrow>
                             if truthy fallback then (Accepted fallback, tr2)
                             else (Retry, tr2 @ [Delay]))
                  | _ \<Rightarrow> (Retry, tr1))))"

text \<open>
  The \<^verbatim>\<open>while\<close> loop. \<open>attempt\<close> is the counter before the increment at the head
  of the body; the \<^verbatim>\<open>catch\<close> rethrows when the incremented counter has reached
  \<open>maxAttempts\<close> and pauses otherwise.
\<close>

function attempts :: "network \<Rightarrow> jsval \<Rightarrow> int \<Rightarrow> int \<Rightarrow> event list \<Rightarrow> (error + jsval) \<times> event list" where
  "attempts net banList maxAttempts attempt tr =
     (if attempt < maxAttempts then
        (case attempt_body net banList tr of
           (Accepted r, tr') \<Rightarrow> (Inr r, tr')
         | (Raised err, tr') \<Rightarrow>
             if attempt + 1 \<ge> maxAttempts then (Inl err, tr')
             else attempts net banList maxAttempts (attempt + 1) (tr' @ [Delay])
         | (Retry, tr') \<Rightarrow> attempts net banList maxAttempts (attempt + 1) tr')
      else (Inl ExhaustionError, tr))"
  by pat_completeness auto

termination
  by (relation "measure (\<lambda>(net, banList, maxAttempts, attempt, tr). nat (maxAttempts - attempt))") auto

text \<open>The default \<^verbatim>\<open>maxAttempts = 8\<close>, for a caller that leaves the option out.\<close>

definition or_eight :: "int option \<Rightarrow> int" where
  "or_eight maxAttempts = (case maxAttempts of None \<Rightarrow> 8 | Some m \<Rightarrow> m)"

text \<open>
  \<^verbatim>\<open>fetchRandomDog({ banList = {}, maxAttempts = 8, timeout = 8000 } = {})\<close>. The
  first argument is the \<^verbatim>\<open>fetch\<close> of the runtime, \<open>None\<close> where there is none.
  The result is the record the promise resolves with or the error it rejects with, and
  the history.
\<close>

definition fetchRandomDog ::
  "network option \<Rightarrow> jsval \<Rightarrow> int option \<Rightarrow> (error + jsval) \<times> event list" where
  "fetchRandomDog fetch banList maxAttempts =
     (case fetch of
        None \<Rightarrow> (Inl CapabilityError, [])
      | Some net \<Rightarrow> attempts net (or_default banList) (or_eight maxAttempts) 0 [])"

section \<open>The single-item revision\<close>

text \<open>
  The repository holds a second revision of the module (\<^verbatim>\<open>src/src/api.js\<close>), with the
  same three functions. It asks the search endpoint for one item per request and makes
  no detail request; its normalizer gives null for an item without a breed object, and
  its matcher counts a record without attributes as banned. The functions of this
  revision carry the suffix \<open>_strict\<close>.
\<close>

definition normalizeImageObj_strict :: "jsval \<Rightarrow> error + jsval" where
  "normalizeImageObj_strict imgObj =
     (if \<not> truthy imgObj then Inr JNull
      else
        and_then
          (js_or
            (js_or (get imgObj ''id'')
              (js_and
                (js_and (get imgObj ''breeds'') (and_then (get imgObj ''breeds'') at0))
                (and_then (and_then (get imgObj ''breeds'') at0) (\<lambda>b. get b ''id''))))
            (Inr JNull)) (\<lambda>id.
        and_then (js_or (get imgObj ''url'') (Inr JNull)) (\<lambda>imageUrl.
        and_then (first_breed imgObj) (\<lambda>breedObj.
        if \<not> truthy breedObj then Inr JNull
        else
          and_then (js_or (get breedObj ''name'') (Inr (JStr []))) (\<lambda>breed.
          and_then (js_or (get breedObj ''temperament'') (Inr (JStr []))) (\<lambda>temperament.
          and_then (js_or (get breedObj ''life_span'') (Inr (JStr []))) (\<lambda>life_span.
          and_then
            (js_or
              (js_and (get breedObj ''weight'')
                (js_or (and_then (get breedObj ''weight'') (\<lambda>w. get w ''imperial''))
                       (and_then (get breedObj ''weight'') (\<lambda>w. get w ''metric''))))
              (Inr (JStr []))) (\<lambda>weight.
          Inr (JObj
            [(''id'', id),
             (''imageUrl'', imageUrl),
             (''attributes'',
                JObj [(''breed'', breed), (''temperament'', temperament),
                      (''life_span'', life_span), (''weight'', weight)])])))))))))"

text \<open>
  \<^verbatim>\<open>if (!item || !item.attributes) return true; const attrs = item.attributes;\<close>
  and then the two loops of the matcher, which are the same in both revisions.
\<close>

definition isBanned_strict :: "jsval \<Rightarrow> jsval \<Rightarrow> error + bool" where
  "isBanned_strict item banList0 =
     (let banList = or_default banList0 in
      if \<not> truthy item then Inr True
      else
        and_then (get item ''attributes'') (\<lambda>attrs.
          if \<not> truthy attrs then Inr True
          else
            and_then (scalar_keys [''breed'', ''life_span'', ''weight''] attrs banList) (\<lambda>r.
              if r then Inr True else temperament_banned attrs banList)))"

text \<open>\<^verbatim>\<open>Array.isArray(data) && data.length ? data[0] : null\<close>\<close>

definition first_item :: "jsval \<Rightarrow> error + jsval" where
  "first_item data =
     (case data of
        JArr xs \<Rightarrow> if length xs > 0 then at0 data else Inr JNull
      | _ \<Rightarrow> Inr JNull)"

text \<open>
  One attempt of this revision: an item that does not normalize goes on to the next
  attempt at once, a banned one pauses first.
\<close>

definition attempt_body_strict :: "network \<Rightarrow> jsval \<Rightarrow> event list \<Rightarrow> attempted \<times> event list" where
  "attempt_body_strict net banList tr =
     (let tr1 = tr @ [Primary] in
      case net tr1 of
        Rejected \<Rightarrow> (Raised TransportError, tr1)
      | Response ok status body \<Rightarrow>
          if \<not> ok then (Raised (ApiError status), tr1)
          else
            (case body of
               None \<Rightarrow> (Raised BodyError, tr1)
             | Some data \<Rightarrow>
                 (case and_then (first_item data) normalizeImageObj_strict of
                    Inl e \<Rightarrow> (Raised e, tr1)
                  | Inr normalized \<Rightarrow>
                      if \<not> truthy normalized then (Retry, tr1)
                      else
                        (case isBanned_strict normalized banList of
                           Inl e \<Rightarrow> (Raised e, tr1)
                         | Inr banned \<Rightarrow>
                             if banned then (Retry, tr1 @ [Delay])
                             else (Accepted normalized, tr1)))))"

function attempts_strict :: "network \<Rightarrow> jsval \<Rightarrow> int \<Rightarrow> int \<Rightarrow> event list \<Rightarrow> (error + jsval) \<times> event list" where
  "attempts_strict net banList maxAttempts attempt tr =
     (if attempt < maxAttempts then
        (case attempt_body_strict net banList tr of
           (Accepted r, tr') \<Rightarrow> (Inr r, tr')
         | (Raised err, tr') \<Rightarrow>
             if attempt + 1 \<ge> maxAttempts then (Inl err, tr')
             else attempts_strict net banList maxAttempts (attempt + 1) (tr' @ [Delay])
         | (Retry, tr') \<Rightarrow> attempts_strict net banList maxAttempts (attempt + 1) tr')
      else (Inl ExhaustionError, tr))"
  by pat_completeness auto

termination
  by (relation "measure (\<lambda>(net, banList, maxAttempts, attempt, tr). nat (maxAttempts - attempt))") auto

definition fetchRandomDog_strict ::
  "network option \<Rightarrow> jsval \<Rightarrow> int option \<Rightarrow> (error + jsval) \<times> event list" where
  "fetchRandomDog_strict fetch banList maxAttempts =
     (case fetch of
        None \<Rightarrow> (Inl CapabilityError, [])
      | Some net \<Rightarrow> attempts_strict net (or_default banList) (or_eight maxAttempts) 0 [])"

section \<open>The vocabulary of the claims\<close>

text \<open>
  The definitions of this section are not code of the client: they say what the claims
  speak of. All of them compute, so that they can be run on concrete data, but for
  \<open>answered\<close>, which speaks of the parts of a history.
\<close>

subsection \<open>Histories\<close>

text \<open>The number of requests to the search endpoint, and of detail requests, in a history.\<close>

definition primary_calls :: "event list \<Rightarrow> nat" where
  "primary_calls tr = length (filter (\<lambda>e. e = Primary) tr)"

definition is_detail :: "event \<Rightarrow> bool" where
  "is_detail e = (case e of Detail i \<Rightarrow> True | _ \<Rightarrow> False)"

definition detail_calls :: "event list \<Rightarrow> nat" where
  "detail_calls tr = length (filter is_detail tr)"

subsection \<open>Records and candidates\<close>

text \<open>
  The value a record has for an attribute key, undefined when the record has no
  attributes or the attributes have no such key; and whether a record has breed data.
\<close>

definition attribute :: "jsval \<Rightarrow> string \<Rightarrow> jsval" where
  "attribute item k =
     (case and_then (get item ''attributes'') (\<lambda>attrs. get attrs k) of
        Inl e \<Rightarrow> JUndefined
      | Inr v \<Rightarrow> v)"

definition has_breed :: "jsval \<Rightarrow> bool" where
  "has_breed item = (case get item ''hasBreed'' of Inl e \<Rightarrow> False | Inr hb \<Rightarrow> truthy hb)"

text \<open>
  A raw item of a batch is excluded when it normalizes to nothing or \<open>isBanned\<close> returns
  true for its record. It is incomplete when its record is not excluded and has no breed
  data (the candidates for the enrichment and the fallback), and enrichable under the
  text \<open>i\<close> when, moreover, the text of its id is \<open>i\<close>. For the single-item revision,
  what is excluded is the body of a response, through its first item.
\<close>

definition excluded :: "jsval \<Rightarrow> jsval \<Rightarrow> bool" where
  "excluded banList imgObj =
     (case normalizeImageObj imgObj of
        Inl e \<Rightarrow> False
      | Inr normalized \<Rightarrow> \<not> truthy normalized \<or> isBanned normalized banList = Inr True)"

definition incomplete :: "jsval \<Rightarrow> jsval \<Rightarrow> bool" where
  "incomplete banList imgObj =
     (case normalizeImageObj imgObj of
        Inl e \<Rightarrow> False
      | Inr normalized \<Rightarrow>
          truthy normalized \<and> isBanned normalized banList = Inr False \<and> \<not> has_breed normalized)"

definition enrichable :: "jsval \<Rightarrow> jsval \<Rightarrow> string \<Rightarrow> bool" where
  "enrichable banList imgObj i =
     (case normalizeImageObj imgObj of
        Inl e \<Rightarrow> False
      | Inr normalized \<Rightarrow>
          truthy normalized \<and> isBanned normalized banList = Inr False \<and>
          \<not> has_breed normalized \<and> and_then (get normalized ''id'') toStr = Inr i)"

definition excluded_strict :: "jsval \<Rightarrow> jsval \<Rightarrow> bool" where
  "excluded_strict banList data =
     (case and_then (first_item data) normalizeImageObj_strict of
        Inl e \<Rightarrow> False
      | Inr normalized \<Rightarrow> \<not> truthy normalized \<or> isBanned_strict normalized banList = Inr True)"

text \<open>
  A detail request for \<open>i\<close> in a history answers to a batch: some primary request of
  the history was answered with an array that holds an item enrichable under \<open>i\<close>.
\<close>

definition answered :: "network \<Rightarrow> jsval \<Rightarrow> event list \<Rightarrow> string \<Rightarrow> bool" where
  "answered net banList tr i =
     (\<exists>h rest status items.
         tr = h @ Primary # rest \<and>
         net (h @ [Primary]) = Response True status (Some (JArr items)) \<and>
         (\<exists>x \<in> set items. enrichable banList x i))"

subsection \<open>Ban lists\<close>

text \<open>
  The banned values of a key are the elements of the array the ban list holds under it.
  A value has a text unless it is null or undefined or its conversion throws. Two values
  clash when both have a text and the two texts are equal once trimmed and put in lower
  case. The comma-separated tokens of a value are the pieces of its text between the
  commas.
\<close>

definition banned_values :: "jsval \<Rightarrow> string \<Rightarrow> jsval list" where
  "banned_values banList k =
     (case get (or_default banList) k of Inr (JArr bs) \<Rightarrow> bs | _ \<Rightarrow> [])"

definition text_of :: "jsval \<Rightarrow> string option" where
  "text_of v = (if nullish v then None else case toStr v of Inl e \<Rightarrow> None | Inr s \<Rightarrow> Some s)"

definition same_text :: "string \<Rightarrow> string \<Rightarrow> bool" where
  "same_text a b = (toLowerCase (trim a) = toLowerCase (trim b))"

definition clash :: "jsval \<Rightarrow> jsval \<Rightarrow> bool" where
  "clash a b =
     (case text_of a of
        None \<Rightarrow> False
      | Some sa \<Rightarrow> (case text_of b of None \<Rightarrow> False | Some sb \<Rightarrow> same_text sa sb))"

definition pieces :: "jsval \<Rightarrow> string list" where
  "pieces v = (case v of JStr s \<Rightarrow> split_comma s | _ \<Rightarrow> [])"

text \<open>
  The first claim in its own words: no scalar attribute of the record clashes with a
  banned value of its key, and no token of its temperament clashes with a banned
  temperament. The last definition is the second half restricted to the tokens that are
  not blank.
\<close>

definition scalars_respected :: "jsval \<Rightarrow> jsval \<Rightarrow> bool" where
  "scalars_respected item banList =
     (\<forall>k \<in> set [''breed'', ''life_span'', ''weight''].
        \<forall>b \<in> set (banned_values banList k). \<not> clash (attribute item k) b)"

definition tokens_respected_as_stated :: "jsval \<Rightarrow> jsval \<Rightarrow> bool" where
  "tokens_respected_as_stated item banList =
     (\<forall>b \<in> set (banned_values banList ''temperament'').
        \<forall>t \<in> set (pieces (attribute item ''temperament'')). \<not> clash (JStr t) b)"

definition tokens_respected :: "jsval \<Rightarrow> jsval \<Rightarrow> bool" where
  "tokens_respected item banList =
     (\<forall>b \<in> set (banned_values banList ''temperament'').
        \<forall>t \<in> set (pieces (attribute item ''temperament'')). trim t \<noteq> [] \<longrightarrow> \<not> clash (JStr t) b)"

text \<open>
  The fifth claim in its own words. A record carries no data for a key when the value of
  the attribute is the empty string, or there is none (the attributes, or the key, are
  absent). The record is not excluded on a key when the answer of the matcher is the one
  it gives for the ban list without that key (\<open>drop_key\<close>).
\<close>

definition no_data :: "jsval \<Rightarrow> string \<Rightarrow> bool" where
  "no_data item k = (attribute item k = JStr [] \<or> nullish (attribute item k))"

definition drop_key :: "string \<Rightarrow> jsval \<Rightarrow> jsval" where
  "drop_key k banList =
     (case or_default banList of
        JObj kvs \<Rightarrow> JObj (filter (\<lambda>kv. fst kv \<noteq> k) kvs)
      | v \<Rightarrow> v)"

text \<open>
  A banned value is harmless under a key when it is null or undefined, or it has a text
  and, for a scalar key, that text is not blank.
\<close>

definition harmless :: "string \<Rightarrow> jsval \<Rightarrow> bool" where
  "harmless k b =
     (nullish b \<or>
      (case toStr b of Inl e \<Rightarrow> False | Inr s \<Rightarrow> k = ''temperament'' \<or> trim s \<noteq> []))"

section \<open>Sample data\<close>

text \<open>Raw items as the search endpoint returns them: one with a breed, and one without.\<close>

definition beagle :: jsval where
  "beagle = JObj [(''id'', JStr ''b1''), (''url'', JStr ''u1''),
     (''breeds'', JArr [JObj [(''name'', JStr ''Beagle''), (''temperament'', JStr ''Friendly, Loyal'')]])]"

definition stray :: jsval where
  "stray = JObj [(''id'', JStr ''s1''), (''url'', JStr ''u2'')]"

text \<open>
  A network that answers every request with the same body, and one that rejects every
  request.
\<close>

definition steady :: "jsval \<Rightarrow> network" where
  "steady data tr = Response True ''200 OK'' (Some data)"

definition down :: network where
  "down tr = Rejected"

text \<open>A network whose first primary request fails in transport and whose second is answered 503.\<close>

definition flaky :: network where
  "flaky tr = (if primary_calls tr < 2 then Rejected else Response False ''503 Service Unavailable'' None)"

text \<open>
  A breed whose temperament has nothing between two of its commas, and a ban list whose
  only banned temperament is the empty text.
\<close>

definition mute :: jsval where
  "mute = JObj [(''id'', JStr ''m1''), (''url'', JStr ''u3''),
     (''breeds'', JArr [JObj [(''name'', JStr ''Basenji''), (''temperament'', JStr ''Calm,,Alert'')]])]"

definition blank_ban :: jsval where
  "blank_ban = JObj [(''temperament'', JArr [JStr []])]"

definition mute_record :: jsval where
  "mute_record =
     JObj [(''id'', JStr ''m1''), (''imageUrl'', JStr ''u3''),
           (''attributes'', JObj [(''breed'', JStr ''Basenji''), (''temperament'', JStr ''Calm,,Alert''),
                                  (''life_span'', JStr []), (''weight'', JStr [])]),
           (''hasBreed'', JBool True)]"

definition friendly_ban :: jsval where
  "friendly_ban = JObj [(''breed'', JArr [JStr ''Poodle'']), (''temperament'', JArr [JStr ''aggressive''])]"

definition beagle_ban :: jsval where
  "beagle_ban = JObj [(''breed'', JArr [JStr '' BEAGLE ''])]"

definition noisy_ban :: jsval where
  "noisy_ban = JObj [(''colour'', JArr [JStr ''Beagle'']), (''breed'', JArr [JStr ''Poodle'']),
                     (''id'', JArr [JStr ''b1''])]"

definition quiet_ban :: jsval where
  "quiet_ban = JObj [(''breed'', JArr [JStr ''Poodle''])]"

definition beagle_record :: jsval where
  "beagle_record =
     JObj [(''id'', JStr ''b1''), (''imageUrl'', JStr ''u1''),
           (''attributes'', JObj [(''breed'', JStr ''Beagle''), (''temperament'', JStr ''Friendly, Loyal''),
                                  (''life_span'', JStr []), (''weight'', JStr [])]),
           (''hasBreed'', JBool True)]"

definition stray_record :: jsval where
  "stray_record =
     JObj [(''id'', JStr ''s1''), (''imageUrl'', JStr ''u2''),
           (''attributes'', JObj [(''breed'', JStr []), (''temperament'', JStr []),
                                  (''life_span'', JStr []), (''weight'', JStr [])]),
           (''hasBreed'', JBool False)]"

text \<open>A network that answers the search with one item without breed, and the details with a beagle.\<close>

definition kennel :: network where
  "kennel tr =
     (if detail_calls tr = 0 then Response True ''200 OK'' (Some (JArr [stray]))
      else Response True ''200 OK'' (Some beagle))"

text \<open>
  A network that answers the search with a beagle and two items without breed, and
  rejects every detail request; a poodle to put in their way.
\<close>

definition stray2 :: jsval where
  "stray2 = JObj [(''id'', JStr ''s2''), (''url'', JStr ''u4'')]"

definition poodle :: jsval where
  "poodle = JObj [(''id'', JStr ''p1''), (''url'', JStr ''u5''),
     (''breeds'', JArr [JObj [(''name'', JStr ''Poodle'')]])]"

definition poodle_record :: jsval where
  "poodle_record =
     JObj [(''id'', JStr ''p1''), (''imageUrl'', JStr ''u5''),
           (''attributes'', JObj [(''breed'', JStr ''Poodle''), (''temperament'', JStr []),
                                  (''life_span'', JStr []), (''weight'', JStr [])]),
           (''hasBreed'', JBool True)]"

definition pound :: network where
  "pound tr =
     (if detail_calls tr = 0 then Response True ''200 OK'' (Some (JArr [beagle, stray, stray2]))
      else Rejected)"

text \<open>A breed object without a name: the record of its item has an empty breed in both revisions.\<close>

definition nameless :: jsval where
  "nameless = JObj [(''id'', JStr ''n1''), (''url'', JStr ''u6''),
     (''breeds'', JArr [JObj [(''temperament'', JStr ''Calm'')]])]"

definition nameless_record :: jsval where
  "nameless_record =
     JObj [(''id'', JStr ''n1''), (''imageUrl'', JStr ''u6''),
           (''attributes'', JObj [(''breed'', JStr []), (''temperament'', JStr ''Calm''),
                                  (''life_span'', JStr []), (''weight'', JStr [])])]"

declare attempts.simps [simp del]

declare attempts_strict.simps [simp del]

section \<open>Facts about the expression layer and the normalizer\<close>

text \<open>
  Every property read of \<^verbatim>\<open>normalizeImageObj\<close> is behind a truthiness test of
  the value it reads from, so the normalizer never throws.
\<close>

lemma get_truthy: "truthy v \<Longrightarrow> \<exists>w. get v k = Inr w"
  by (cases v) auto

lemma at0_truthy: "truthy v \<Longrightarrow> \<exists>w. at0 v = Inr w"
  by (cases v) auto

lemma js_or_Inr: "js_or (Inr v) b = (if truthy v then Inr v else b)"
  by (simp add: js_or_def and_then_def)

lemma js_and_Inr: "js_and (Inr v) b = (if truthy v then b else Inr v)"
  by (simp add: js_and_def and_then_def)

lemma and_then_Inr: "and_then (Inr v) f = f v"
  by (simp add: and_then_def)

lemma and_then_Inl: "and_then (Inl e) f = Inl e"
  by (simp add: and_then_def)

lemma id_total:
  assumes "truthy imgObj"
  shows "\<exists>w. js_or
            (js_or (get imgObj ''id'')
              (js_and
                (js_and (get imgObj ''breeds'') (and_then (get imgObj ''breeds'') at0))
                (and_then (and_then (get imgObj ''breeds'') at0) (\<lambda>b. get b ''id''))))
            (Inr JNull) = Inr w"
proof -
  obtain a where a: "get imgObj ''id'' = Inr a" using get_truthy [OF assms] by blast
  obtain bs where bs: "get imgObj ''breeds'' = Inr bs" using get_truthy [OF assms] by blast
  show ?thesis
  proof (cases "truthy bs")
    case False
    then show ?thesis by (simp add: a bs js_or_Inr js_and_Inr and_then_Inr)
  next
    case True
    then obtain b0 where b0: "at0 bs = Inr b0" using at0_truthy by blast
    show ?thesis
    proof (cases "truthy b0")
      case False
      with True show ?thesis by (simp add: a bs b0 js_or_Inr js_and_Inr and_then_Inr)
    next
      case t: True
      then obtain i where "get b0 ''id'' = Inr i" using get_truthy by blast
      with True t show ?thesis by (simp add: a bs b0 js_or_Inr js_and_Inr and_then_Inr)
    qed
  qed
qed

lemma url_total:
  assumes "truthy imgObj"
  shows "\<exists>w. js_or (get imgObj ''url'') (Inr JNull) = Inr w"
proof -
  obtain a where a: "get imgObj ''url'' = Inr a" using get_truthy [OF assms] by blast
  show ?thesis by (simp add: a js_or_Inr)
qed

lemma first_breed_total:
  assumes "truthy imgObj"
  shows "\<exists>b. first_breed imgObj = Inr b"
proof -
  obtain bs where bs: "get imgObj ''breeds'' = Inr bs" using get_truthy [OF assms] by blast
  show ?thesis by (cases bs) (simp_all add: first_breed_def bs and_then_Inr)
qed

lemma or_empty_total:
  assumes "truthy b \<Longrightarrow> \<exists>w. e = Inr w"
  shows "\<exists>w. or_empty b e = Inr w \<and> (truthy w \<or> w = JStr []) \<and> (\<not> truthy b \<longrightarrow> w = JStr [])"
proof (cases "truthy b")
  case False
  then show ?thesis by (simp add: or_empty_def)
next
  case True
  then obtain w where "e = Inr w" using assms by blast
  with True show ?thesis by (simp add: or_empty_def js_or_Inr)
qed

lemma weight_total:
  assumes "truthy b"
  shows "\<exists>w. js_and (get b ''weight'')
              (js_or (and_then (get b ''weight'') (\<lambda>w. get w ''imperial''))
                     (and_then (get b ''weight'') (\<lambda>w. get w ''metric''))) = Inr w"
proof -
  obtain x where x: "get b ''weight'' = Inr x" using get_truthy [OF assms] by blast
  show ?thesis
  proof (cases "truthy x")
    case False
    then show ?thesis by (simp add: x js_and_Inr)
  next
    case True
    obtain i where i: "get x ''imperial'' = Inr i" using get_truthy [OF True] by blast
    obtain m where m: "get x ''metric'' = Inr m" using get_truthy [OF True] by blast
    from True show ?thesis by (simp add: x i m js_and_Inr js_or_Inr and_then_Inr)
  qed
qed

lemma normalizeImageObj_falsy: "\<not> truthy imgObj \<Longrightarrow> normalizeImageObj imgObj = Inr JNull"
  by (simp add: normalizeImageObj_def)

lemma normalizeImageObj_record:
  assumes "truthy imgObj"
  shows "\<exists>i u b n t l w.
           first_breed imgObj = Inr b \<and>
           normalizeImageObj imgObj =
             Inr (JObj [(''id'', i), (''imageUrl'', u),
                        (''attributes'', JObj [(''breed'', n), (''temperament'', t),
                                               (''life_span'', l), (''weight'', w)]),
                        (''hasBreed'', JBool (truthy b))]) \<and>
           (truthy n \<or> n = JStr []) \<and> (truthy t \<or> t = JStr []) \<and>
           (truthy l \<or> l = JStr []) \<and> (truthy w \<or> w = JStr []) \<and>
           (\<not> truthy b \<longrightarrow> n = JStr [] \<and> t = JStr [] \<and> l = JStr [] \<and> w = JStr [])"
proof -
  obtain i where i: "js_or
            (js_or (get imgObj ''id'')
              (js_and
                (js_and (get imgObj ''breeds'') (and_then (get imgObj ''breeds'') at0))
                (and_then (and_then (get imgObj ''breeds'') at0) (\<lambda>b. get b ''id''))))
            (Inr JNull) = Inr i" using id_total [OF assms] by blast
  obtain u where u: "js_or (get imgObj ''url'') (Inr JNull) = Inr u"
    using url_total [OF assms] by blast
  obtain b where b: "first_breed imgObj = Inr b" using first_breed_total [OF assms] by blast
  obtain n where n: "or_empty b (get b ''name'') = Inr n" "truthy n \<or> n = JStr []" "\<not> truthy b \<longrightarrow> n = JStr []"
    using or_empty_total [of b "get b ''name''"] get_truthy by blast
  obtain t where t: "or_empty b (get b ''temperament'') = Inr t" "truthy t \<or> t = JStr []" "\<not> truthy b \<longrightarrow> t = JStr []"
    using or_empty_total [of b "get b ''temperament''"] get_truthy by blast
  obtain l where l: "or_empty b (get b ''life_span'') = Inr l" "truthy l \<or> l = JStr []" "\<not> truthy b \<longrightarrow> l = JStr []"
    using or_empty_total [of b "get b ''life_span''"] get_truthy by blast
  obtain w where w: "or_empty b
            (js_and (get b ''weight'')
              (js_or (and_then (get b ''weight'') (\<lambda>w. get w ''imperial''))
                     (and_then (get b ''weight'') (\<lambda>w. get w ''metric'')))) = Inr w"
     "truthy w \<or> w = JStr []" "\<not> truthy b \<longrightarrow> w = JStr []"
    using or_empty_total [OF weight_total, of b b] by blast
  have "normalizeImageObj imgObj =
             Inr (JObj [(''id'', i), (''imageUrl'', u),
                        (''attributes'', JObj [(''breed'', n), (''temperament'', t),
                                               (''life_span'', l), (''weight'', w)]),
                        (''hasBreed'', JBool (truthy b))])"
    using assms by (simp add: normalizeImageObj_def i u b n(1) t(1) l(1) w(1) and_then_Inr)
  with b n t l w show ?thesis by blast
qed

section \<open>Facts about the ban matcher\<close>

lemma or_default_idem: "or_default (or_default bl) = or_default bl"
  by (simp add: or_default_def)

lemma isBanned_or_default: "isBanned item (or_default bl) = isBanned item bl"
  by (simp add: isBanned_def or_default_idem)

lemma attrs_attribute:
  assumes "truthy item" and "js_or (get item ''attributes'') (Inr (JObj [])) = Inr attrs"
  shows "get attrs k = Inr (attribute item k)"
proof -
  obtain a where a: "get item ''attributes'' = Inr a" using get_truthy [OF assms(1)] by blast
  show ?thesis
  proof (cases "truthy a")
    case True
    then obtain v where "get a k = Inr v" using get_truthy by blast
    with True a assms(2) show ?thesis by (simp add: js_or_Inr attribute_def and_then_Inr)
  next
    case False
    with a assms(2) have "attrs = JObj []" by (simp add: js_or_Inr)
    moreover from False have "get a k = Inl TypeError \<or> get a k = Inr JUndefined"
      by (cases a) auto
    ultimately show ?thesis using a by (auto simp: attribute_def and_then_Inr)
  qed
qed

lemma eq_False_clash: "eq a b = Inr False \<Longrightarrow> \<not> clash a b"
  by (auto simp: eq_def clash_def text_of_def same_text_def and_then_def split: if_splits sum.splits)

lemma any_eq_False:
  "any_eq attrs key bs = Inr False \<Longrightarrow> b \<in> set bs \<Longrightarrow> and_then (get attrs key) (\<lambda>a. eq a b) = Inr False"
  by (induction bs) (auto split: sum.splits if_splits)

lemma scalar_keys_False:
  "scalar_keys keys attrs banList = Inr False \<Longrightarrow> k \<in> set keys \<Longrightarrow>
   get banList k = Inr (JArr bs) \<Longrightarrow> any_eq attrs k bs = Inr False"
proof (induction keys)
  case Nil
  then show ?case by simp
next
  case (Cons key keys)
  show ?case
  proof (cases "bs = []")
    case True
    then show ?thesis by simp
  next
    case False
    from Cons.prems(1) have rest: "scalar_keys keys attrs banList = Inr False"
      by (auto split: sum.splits jsval.splits if_splits)
    show ?thesis
    proof (cases "k = key")
      case True
      with Cons.prems(1,3) False show ?thesis
        by (auto split: sum.splits if_splits)
    next
      case k: False
      with Cons.prems(2) have "k \<in> set keys" by simp
      then show ?thesis using Cons.IH rest Cons.prems(3) by blast
    qed
  qed
qed

lemma any_token_False:
  "any_token tokens bs = Inr False \<Longrightarrow> b \<in> set bs \<Longrightarrow>
   \<exists>sb. toStr b = Inr sb \<and> toLowerCase (trim sb) \<notin> set tokens"
  by (induction bs) (auto split: sum.splits if_splits)

lemma toLowerCase_Nil_iff: "toLowerCase s = [] \<longleftrightarrow> s = []"
  by (simp add: toLowerCase_def)

lemma isBanned_False_parts:
  assumes "isBanned item banList = Inr False"
  shows "truthy item \<and> (\<exists>attrs. js_or (get item ''attributes'') (Inr (JObj [])) = Inr attrs \<and>
           scalar_keys [''breed'', ''life_span'', ''weight''] attrs (or_default banList) = Inr False \<and>
           temperament_banned attrs (or_default banList) = Inr False)"
  using assms by (auto simp: isBanned_def Let_def and_then_def split: if_splits sum.splits)

lemma banned_values_mem:
  assumes "b \<in> set (banned_values banList k)"
  obtains bs where "get (or_default banList) k = Inr (JArr bs)" and "b \<in> set bs"
proof (cases "get (or_default banList) k")
  case (Inl e)
  with assms show ?thesis by (simp add: banned_values_def)
next
  case (Inr v)
  with assms that show ?thesis by (cases v) (simp_all add: banned_values_def)
qed

lemma isBanned_False_scalar:
  assumes "isBanned item banList = Inr False"
    and "k \<in> set [''breed'', ''life_span'', ''weight'']"
    and "b \<in> set (banned_values banList k)"
  shows "\<not> clash (attribute item k) b"
proof -
  from isBanned_False_parts [OF assms(1)] obtain attrs where
    t: "truthy item" and a: "js_or (get item ''attributes'') (Inr (JObj [])) = Inr attrs"
    and s: "scalar_keys [''breed'', ''life_span'', ''weight''] attrs (or_default banList) = Inr False"
    by blast
  from assms(3) obtain bs where bs: "get (or_default banList) k = Inr (JArr bs)" "b \<in> set bs"
    by (rule banned_values_mem)
  have "any_eq attrs k bs = Inr False" using scalar_keys_False [OF s assms(2) bs(1)] .
  then have "and_then (get attrs k) (\<lambda>a. eq a b) = Inr False" using any_eq_False bs(2) by blast
  then have "eq (attribute item k) b = Inr False"
    by (simp add: attrs_attribute [OF t a] and_then_Inr)
  then show ?thesis by (rule eq_False_clash)
qed

lemma isBanned_False_temperament:
  assumes "isBanned item banList = Inr False"
    and "b \<in> set (banned_values banList ''temperament'')"
    and "t \<in> set (pieces (attribute item ''temperament''))"
    and "trim t \<noteq> []"
  shows "\<not> clash (JStr t) b"
proof -
  from isBanned_False_parts [OF assms(1)] obtain attrs where
    ti: "truthy item" and a: "js_or (get item ''attributes'') (Inr (JObj [])) = Inr attrs"
    and tb: "temperament_banned attrs (or_default banList) = Inr False"
    by blast
  from assms(2) obtain bs where bs: "get (or_default banList) ''temperament'' = Inr (JArr bs)" "b \<in> set bs"
    by (rule banned_values_mem)
  from assms(3) obtain s where s: "attribute item ''temperament'' = JStr s" "t \<in> set (split_comma s)"
    by (cases "attribute item ''temperament''") (simp_all add: pieces_def)
  have g: "get attrs ''temperament'' = Inr (JStr s)" using attrs_attribute [OF ti a] s(1) by simp
  have v: "js_or (get attrs ''temperament'') (Inr (JStr [])) = Inr (JStr s)"
    by (simp add: g js_or_Inr)
  from bs(2) have ne: "bs \<noteq> []" by auto
  from tb have "any_token (filter (\<lambda>t. t \<noteq> []) (map (\<lambda>t. toLowerCase (trim t)) (split_comma s))) bs = Inr False"
    using ne by (simp add: temperament_banned_def bs(1) v and_then_Inr tokens_of_def)
  from any_token_False [OF this bs(2)] obtain sb where
    sb: "toStr b = Inr sb" "toLowerCase (trim sb) \<notin> set (filter (\<lambda>t. t \<noteq> []) (map (\<lambda>t. toLowerCase (trim t)) (split_comma s)))"
    by blast
  from s(2) assms(4) have "toLowerCase (trim t) \<in> set (filter (\<lambda>t. t \<noteq> []) (map (\<lambda>t. toLowerCase (trim t)) (split_comma s)))"
    by (auto simp: toLowerCase_Nil_iff)
  with sb(2) have "toLowerCase (trim t) \<noteq> toLowerCase (trim sb)" by auto
  then show ?thesis using sb(1) by (auto simp: clash_def text_of_def same_text_def split: option.splits if_splits)
qed

section \<open>Facts about the scan and the attempt\<close>

lemma primary_calls_append [simp]: "primary_calls (a @ b) = primary_calls a + primary_calls b"
  by (simp add: primary_calls_def)

lemma primary_calls_simps [simp]:
  "primary_calls [] = 0" "primary_calls [Primary] = 1" "primary_calls [Delay] = 0"
  "primary_calls [Detail i] = 0"
  by (simp_all add: primary_calls_def)

lemma primary_calls_Cons [simp]:
  "primary_calls (e # es) = (if e = Primary then 1 else 0) + primary_calls es"
  by (simp add: primary_calls_def)

lemma detail_calls_append [simp]: "detail_calls (a @ b) = detail_calls a + detail_calls b"
  by (simp add: detail_calls_def)

lemma detail_calls_simps [simp]:
  "detail_calls [] = 0"
  "detail_calls (e # es) = (if is_detail e then 1 else 0) + detail_calls es"
  by (simp_all add: detail_calls_def)

lemma is_detail_simps [simp]:
  "\<not> is_detail Primary" "\<not> is_detail Delay" "is_detail (Detail i)"
  by (simp_all add: is_detail_def)

lemma enrich_cases:
  assumes "enrich net banList normalized tr = (r, tr')"
  shows "(r = None \<and> tr' = tr \<and> (\<exists>e. and_then (get normalized ''id'') toStr = Inl e)) \<or>
         (\<exists>i. and_then (get normalized ''id'') toStr = Inr i \<and> tr' = tr @ [Detail i] \<and>
              (r = None \<or>
               (\<exists>enriched status detailObj hasBreed.
                   r = Some enriched \<and>
                   net tr' = Response True status (Some detailObj) \<and>
                   normalizeImageObj detailObj = Inr enriched \<and>
                   truthy enriched \<and>
                   get enriched ''hasBreed'' = Inr hasBreed \<and> truthy hasBreed \<and>
                   isBanned enriched banList = Inr False)))"
proof (cases "and_then (get normalized ''id'') toStr")
  case (Inl e)
  with assms show ?thesis by (simp add: enrich_def)
next
  case (Inr i)
  with assms show ?thesis
    by (auto simp: enrich_def Let_def split: reply.splits option.splits sum.splits if_splits)
qed

lemma enrich_trace:
  assumes "enrich net banList normalized tr = (r, tr')"
  shows "\<exists>ev. tr' = tr @ ev \<and> (\<forall>e \<in> set ev. is_detail e)"
  using enrich_cases [OF assms] by (auto simp: is_detail_def)

lemma enrich_Some:
  assumes "enrich net banList normalized tr = (Some enriched, tr')"
  shows "isBanned enriched banList = Inr False"
  using enrich_cases [OF assms] by auto

lemma normalizeImageObj_total: "\<exists>normalized. normalizeImageObj imgObj = Inr normalized"
  by (cases "truthy imgObj") (use normalizeImageObj_falsy normalizeImageObj_record in blast)+

lemma scan_step:
  obtains
    (skip) "excluded banList imgObj"
      "scan net banList (imgObj # rest) fallback tr = scan net banList rest fallback tr"
  | (threw) normalized e where
      "normalizeImageObj imgObj = Inr normalized" "truthy normalized"
      "isBanned normalized banList = Inl e"
      "scan net banList (imgObj # rest) fallback tr = (Threw e, tr)"
  | (complete) normalized where
      "normalizeImageObj imgObj = Inr normalized" "truthy normalized"
      "isBanned normalized banList = Inr False" "has_breed normalized"
      "scan net banList (imgObj # rest) fallback tr = (Returned normalized, tr)"
  | (enriched) normalized enriched tr1 where
      "normalizeImageObj imgObj = Inr normalized" "truthy normalized"
      "isBanned normalized banList = Inr False" "\<not> has_breed normalized"
      "enrich net banList normalized tr = (Some enriched, tr1)"
      "scan net banList (imgObj # rest) fallback tr = (Returned enriched, tr1)"
  | (deferred) normalized tr1 where
      "normalizeImageObj imgObj = Inr normalized" "truthy normalized"
      "isBanned normalized banList = Inr False" "\<not> has_breed normalized"
      "enrich net banList normalized tr = (None, tr1)"
      "scan net banList (imgObj # rest) fallback tr =
         scan net banList rest (if \<not> truthy fallback then normalized else fallback) tr1"
proof -
  obtain normalized where n: "normalizeImageObj imgObj = Inr normalized"
    using normalizeImageObj_total by blast
  show ?thesis
  proof (cases "truthy normalized")
    case False
    with n show ?thesis by (intro skip) (simp_all add: excluded_def)
  next
    case True
    then obtain hb where hb: "get normalized ''hasBreed'' = Inr hb" using get_truthy by blast
    show ?thesis
    proof (cases "isBanned normalized banList")
      case (Inl e)
      with n True show ?thesis by (intro threw [of normalized e]) simp_all
    next
      case (Inr banned)
      show ?thesis
      proof (cases banned)
        case True
        with n Inr show ?thesis by (intro skip) (simp_all add: excluded_def)
      next
        case False
        with Inr have nb: "isBanned normalized banList = Inr False" by simp
        show ?thesis
        proof (cases "truthy hb")
          case t: True
          with n True nb hb show ?thesis
            by (intro complete [of normalized]) (simp_all add: has_breed_def)
        next
          case f: False
          obtain r tr1 where e: "enrich net banList normalized tr = (r, tr1)"
            by (cases "enrich net banList normalized tr")
          show ?thesis
          proof (cases r)
            case None
            with n True nb hb f e show ?thesis
              by (intro deferred [of normalized tr1]) (simp_all add: has_breed_def)
          next
            case (Some enriched)
            with n True nb hb f e show ?thesis
              by (intro enriched [of normalized enriched tr1]) (simp_all add: has_breed_def)
          qed
        qed
      qed
    qed
  qed
qed

lemma scan_trace:
  "scan net banList items fallback tr = (out, tr') \<Longrightarrow>
   \<exists>ev. tr' = tr @ ev \<and> (\<forall>e \<in> set ev. is_detail e)"
proof (induction items arbitrary: fallback tr)
  case Nil
  then show ?case by simp
next
  case (Cons imgObj rest)
  show ?case
  proof (cases rule: scan_step [of banList imgObj net rest fallback tr])
    case skip
    with Cons show ?thesis by simp
  next
    case (threw normalized e)
    with Cons.prems show ?thesis by simp
  next
    case (complete normalized)
    with Cons.prems show ?thesis by simp
  next
    case (enriched normalized enriched tr1)
    with Cons.prems enrich_trace [OF enriched(5)] show ?thesis by simp
  next
    case (deferred normalized tr1)
    from enrich_trace [OF deferred(5)] obtain ev1 where
      ev1: "tr1 = tr @ ev1" "\<forall>e \<in> set ev1. is_detail e" by blast
    from Cons.prems deferred(6)
    have "scan net banList rest (if \<not> truthy fallback then normalized else fallback) tr1 = (out, tr')"
      by simp
    from Cons.IH [OF this] obtain ev where "tr' = tr1 @ ev" "\<forall>e \<in> set ev. is_detail e" by blast
    with ev1 have "tr' = tr @ (ev1 @ ev) \<and> (\<forall>e \<in> set (ev1 @ ev). is_detail e)" by auto
    then show ?thesis by blast
  qed
qed

lemma scan_Returned:
  "scan net banList items fallback tr = (Returned r, tr') \<Longrightarrow> isBanned r banList = Inr False"
proof (induction items arbitrary: fallback tr)
  case Nil
  then show ?case by simp
next
  case (Cons imgObj rest)
  show ?case
  proof (cases rule: scan_step [of banList imgObj net rest fallback tr])
    case skip
    with Cons show ?thesis by simp
  next
    case (threw normalized e)
    with Cons.prems show ?thesis by simp
  next
    case (complete normalized)
    with Cons.prems show ?thesis by simp
  next
    case (enriched normalized enriched tr1)
    with Cons.prems enrich_Some [OF enriched(5)] show ?thesis by simp
  next
    case (deferred normalized tr1)
    with Cons show ?thesis by simp
  qed
qed

lemma scan_Completed:
  "scan net banList items fallback tr = (Completed fb, tr') \<Longrightarrow>
   fb = fallback \<or> (\<not> truthy fallback \<and> isBanned fb banList = Inr False)"
proof (induction items arbitrary: fallback tr)
  case Nil
  then show ?case by simp
next
  case (Cons imgObj rest)
  show ?case
  proof (cases rule: scan_step [of banList imgObj net rest fallback tr])
    case skip
    with Cons show ?thesis by simp
  next
    case (threw normalized e)
    with Cons.prems show ?thesis by simp
  next
    case (complete normalized)
    with Cons.prems show ?thesis by simp
  next
    case (enriched normalized enriched tr1)
    with Cons.prems show ?thesis by simp
  next
    case (deferred normalized tr1)
    from Cons.prems deferred(6)
    have "scan net banList rest (if \<not> truthy fallback then normalized else fallback) tr1 = (Completed fb, tr')"
      by simp
    from Cons.IH [OF this] deferred(2,3) show ?thesis by (auto split: if_splits)
  qed
qed

lemma primary_calls_details: "\<forall>e \<in> set ev. is_detail e \<Longrightarrow> primary_calls ev = 0"
  by (induction ev) (auto simp: primary_calls_def is_detail_def)

lemma attempt_body_trace:
  assumes "attempt_body net banList tr = (out, tr')"
  shows "\<exists>ev. tr' = tr @ Primary # ev \<and> Primary \<notin> set ev"
proof (cases "\<exists>status items. net (tr @ [Primary]) = Response True status (Some (JArr items)) \<and> items \<noteq> []")
  case False
  with assms have "tr' = tr @ [Primary]"
    by (auto simp: attempt_body_def Let_def split: reply.splits option.splits jsval.splits if_splits)
  then show ?thesis by simp
next
  case True
  then obtain status items where r: "net (tr @ [Primary]) = Response True status (Some (JArr items))" "items \<noteq> []"
    by blast
  obtain s tr2 where s: "scan net banList items JNull (tr @ [Primary]) = (s, tr2)"
    by (cases "scan net banList items JNull (tr @ [Primary])")
  from scan_trace [OF s] obtain ev where ev: "tr2 = (tr @ [Primary]) @ ev" "\<forall>e \<in> set ev. is_detail e" by blast
  then have np: "Primary \<notin> set ev" by (auto simp: is_detail_def)
  from assms r s have "tr' = tr2 \<or> tr' = tr2 @ [Delay]"
    by (auto simp: attempt_body_def Let_def split: scanned.splits if_splits)
  with ev(1) np have "tr' = tr @ Primary # ev \<and> Primary \<notin> set ev \<or> tr' = tr @ Primary # (ev @ [Delay]) \<and> Primary \<notin> set (ev @ [Delay])"
    by auto
  then show ?thesis by blast
qed

lemma attempt_body_primary:
  assumes "attempt_body net banList tr = (out, tr')"
  shows "primary_calls tr' = Suc (primary_calls tr)"
proof -
  from attempt_body_trace [OF assms] obtain ev where "tr' = tr @ Primary # ev" "Primary \<notin> set ev" by blast
  moreover from this have "filter (\<lambda>e. e = Primary) ev = []" by (auto simp: filter_empty_conv)
  ultimately show ?thesis by (simp add: primary_calls_def)
qed

lemma attempt_body_Accepted:
  assumes "attempt_body net banList tr = (Accepted r, tr')"
  shows "isBanned r banList = Inr False"
proof -
  from assms obtain status items where r: "net (tr @ [Primary]) = Response True status (Some (JArr items))" "items \<noteq> []"
    by (auto simp: attempt_body_def Let_def split: reply.splits option.splits jsval.splits if_splits)
  obtain s tr2 where s: "scan net banList items JNull (tr @ [Primary]) = (s, tr2)"
    by (cases "scan net banList items JNull (tr @ [Primary])")
  show ?thesis
  proof (cases s)
    case (Returned x)
    with assms r s have "x = r" by (simp add: attempt_body_def)
    with Returned s scan_Returned show ?thesis by blast
  next
    case (Threw e)
    with assms r s show ?thesis by (simp add: attempt_body_def)
  next
    case (Completed fb)
    with assms r s have "fb = r" "truthy r" by (auto simp: attempt_body_def split: if_splits)
    with Completed s scan_Completed [of net banList items JNull "tr @ [Primary]" r tr2] show ?thesis by auto
  qed
qed

section \<open>Facts about the loop\<close>

lemma attempts_step:
  obtains
    (exhausted) "\<not> attempt < maxAttempts"
      "attempts net banList maxAttempts attempt tr = (Inl ExhaustionError, tr)"
  | (accepted) r tr1 where "attempt < maxAttempts"
      "attempt_body net banList tr = (Accepted r, tr1)"
      "attempts net banList maxAttempts attempt tr = (Inr r, tr1)"
  | (final) e tr1 where "attempt < maxAttempts" "maxAttempts \<le> attempt + 1"
      "attempt_body net banList tr = (Raised e, tr1)"
      "attempts net banList maxAttempts attempt tr = (Inl e, tr1)"
  | (caught) e tr1 where "attempt + 1 < maxAttempts"
      "attempt_body net banList tr = (Raised e, tr1)"
      "attempts net banList maxAttempts attempt tr =
         attempts net banList maxAttempts (attempt + 1) (tr1 @ [Delay])"
  | (retry) tr1 where "attempt < maxAttempts"
      "attempt_body net banList tr = (Retry, tr1)"
      "attempts net banList maxAttempts attempt tr =
         attempts net banList maxAttempts (attempt + 1) tr1"
proof (cases "attempt < maxAttempts")
  case False
  then show ?thesis by (intro exhausted) (simp_all add: attempts.simps)
next
  case True
  obtain out tr1 where b: "attempt_body net banList tr = (out, tr1)"
    by (cases "attempt_body net banList tr")
  show ?thesis
  proof (cases out)
    case (Accepted r)
    with True b show ?thesis by (intro accepted [of r tr1]) (simp_all add: attempts.simps)
  next
    case (Raised e)
    show ?thesis
    proof (cases "maxAttempts \<le> attempt + 1")
      case t: True
      with True b Raised show ?thesis by (intro final [of e tr1]) (simp_all add: attempts.simps)
    next
      case False
      with True b Raised show ?thesis by (intro caught [of e tr1]) (simp_all add: attempts.simps)
    qed
  next
    case Retry
    with True b show ?thesis by (intro retry [of tr1]) (simp_all add: attempts.simps)
  qed
qed

lemma attempts_primary:
  "attempts net banList maxAttempts attempt tr = (res, tr') \<Longrightarrow>
   int (primary_calls tr') \<le> int (primary_calls tr) + max 0 (maxAttempts - attempt)"
proof (induction n \<equiv> "nat (maxAttempts - attempt)" arbitrary: attempt tr)
  case 0
  then have "\<not> attempt < maxAttempts" by simp
  with "0.prems" show ?case by (simp add: attempts.simps)
next
  case (Suc n)
  then have lt: "attempt < maxAttempts" and n: "n = nat (maxAttempts - (attempt + 1))" by simp_all
  show ?case
  proof (cases rule: attempts_step [of attempt maxAttempts net banList tr])
    case exhausted
    with lt show ?thesis by simp
  next
    case (accepted r tr1)
    with Suc.prems attempt_body_primary [OF accepted(2)] lt show ?thesis by simp
  next
    case (final e tr1)
    with Suc.prems attempt_body_primary [OF final(3)] lt show ?thesis by simp
  next
    case (caught e tr1)
    with Suc.prems have "attempts net banList maxAttempts (attempt + 1) (tr1 @ [Delay]) = (res, tr')" by simp
    from Suc.hyps(1) [OF n this] attempt_body_primary [OF caught(2)] lt show ?thesis by simp
  next
    case (retry tr1)
    with Suc.prems have "attempts net banList maxAttempts (attempt + 1) tr1 = (res, tr')" by simp
    from Suc.hyps(1) [OF n this] attempt_body_primary [OF retry(2)] lt show ?thesis by simp
  qed
qed

lemma attempts_Inr:
  "attempts net banList maxAttempts attempt tr = (Inr r, tr') \<Longrightarrow> isBanned r banList = Inr False"
proof (induction n \<equiv> "nat (maxAttempts - attempt)" arbitrary: attempt tr)
  case 0
  then have "\<not> attempt < maxAttempts" by simp
  with "0.prems" show ?case by (simp add: attempts.simps)
next
  case (Suc n)
  then have lt: "attempt < maxAttempts" and n: "n = nat (maxAttempts - (attempt + 1))" by simp_all
  show ?case
  proof (cases rule: attempts_step [of attempt maxAttempts net banList tr])
    case exhausted
    with lt show ?thesis by simp
  next
    case (accepted x tr1)
    with Suc.prems attempt_body_Accepted [OF accepted(2)] show ?thesis by simp
  next
    case (final e tr1)
    with Suc.prems show ?thesis by simp
  next
    case (caught e tr1)
    with Suc.prems have "attempts net banList maxAttempts (attempt + 1) (tr1 @ [Delay]) = (Inr r, tr')" by simp
    from Suc.hyps(1) [OF n this] show ?thesis .
  next
    case (retry tr1)
    with Suc.prems have "attempts net banList maxAttempts (attempt + 1) tr1 = (Inr r, tr')" by simp
    from Suc.hyps(1) [OF n this] show ?thesis .
  qed
qed

lemma attempts_Inl:
  "attempts net banList maxAttempts attempt tr = (Inl e, tr') \<Longrightarrow>
   int (primary_calls tr) = attempt \<Longrightarrow>
   (e = ExhaustionError \<and> int (primary_calls tr') = max attempt maxAttempts) \<or>
   (\<exists>tr0. attempt_body net banList tr0 = (Raised e, tr') \<and>
          int (primary_calls tr0) = maxAttempts - 1 \<and> int (primary_calls tr') = maxAttempts)"
proof (induction n \<equiv> "nat (maxAttempts - attempt)" arbitrary: attempt tr)
  case 0
  then have "\<not> attempt < maxAttempts" by simp
  with "0.prems" show ?case by (simp add: attempts.simps)
next
  case (Suc n)
  then have lt: "attempt < maxAttempts" and n: "n = nat (maxAttempts - (attempt + 1))" by simp_all
  show ?case
  proof (cases rule: attempts_step [of attempt maxAttempts net banList tr])
    case exhausted
    with lt show ?thesis by simp
  next
    case (accepted x tr1)
    with Suc.prems show ?thesis by simp
  next
    case (final x tr1)
    with Suc.prems have "x = e" "tr1 = tr'" by simp_all
    with final(1,2,3) Suc.prems(2) attempt_body_primary [OF final(3)]
    have "attempt_body net banList tr = (Raised e, tr') \<and>
          int (primary_calls tr) = maxAttempts - 1 \<and> int (primary_calls tr') = maxAttempts"
      by simp
    then show ?thesis by blast
  next
    case (caught x tr1)
    with Suc.prems have a: "attempts net banList maxAttempts (attempt + 1) (tr1 @ [Delay]) = (Inl e, tr')" by simp
    have "int (primary_calls (tr1 @ [Delay])) = attempt + 1"
      using attempt_body_primary [OF caught(2)] Suc.prems(2) by simp
    from Suc.hyps(1) [OF n a this] lt show ?thesis by (simp add: max_def)
  next
    case (retry tr1)
    with Suc.prems have a: "attempts net banList maxAttempts (attempt + 1) tr1 = (Inl e, tr')" by simp
    have "int (primary_calls tr1) = attempt + 1"
      using attempt_body_primary [OF retry(2)] Suc.prems(2) by simp
    from Suc.hyps(1) [OF n a this] lt show ?thesis by (simp add: max_def)
  qed
qed

section \<open>Facts about the single-item revision\<close>

lemma normalizeImageObj_strict_cases:
  "normalizeImageObj_strict imgObj = Inr JNull \<or>
   (\<exists>i u n t l w.
      normalizeImageObj_strict imgObj =
        Inr (JObj [(''id'', i), (''imageUrl'', u),
                   (''attributes'', JObj [(''breed'', n), (''temperament'', t),
                                          (''life_span'', l), (''weight'', w)])]) \<and>
      (truthy n \<or> n = JStr []) \<and> (truthy t \<or> t = JStr []) \<and>
      (truthy l \<or> l = JStr []) \<and> (truthy w \<or> w = JStr []))"
proof (cases "truthy imgObj")
  case False
  then show ?thesis by (simp add: normalizeImageObj_strict_def)
next
  case True
  obtain i where i: "js_or
            (js_or (get imgObj ''id'')
              (js_and
                (js_and (get imgObj ''breeds'') (and_then (get imgObj ''breeds'') at0))
                (and_then (and_then (get imgObj ''breeds'') at0) (\<lambda>b. get b ''id''))))
            (Inr JNull) = Inr i" using id_total [OF True] by blast
  obtain u where u: "js_or (get imgObj ''url'') (Inr JNull) = Inr u"
    using url_total [OF True] by blast
  obtain b where b: "first_breed imgObj = Inr b" using first_breed_total [OF True] by blast
  show ?thesis
  proof (cases "truthy b")
    case False
    with True show ?thesis by (simp add: normalizeImageObj_strict_def i u b and_then_Inr)
  next
    case tb: True
    have oe: "or_empty b e = js_or e (Inr (JStr []))" for e using tb by (simp add: or_empty_def)
    obtain n where n: "js_or (get b ''name'') (Inr (JStr [])) = Inr n" "truthy n \<or> n = JStr []"
      using or_empty_total [of b "get b ''name''"] get_truthy [OF tb] oe by auto
    obtain t where t: "js_or (get b ''temperament'') (Inr (JStr [])) = Inr t" "truthy t \<or> t = JStr []"
      using or_empty_total [of b "get b ''temperament''"] get_truthy [OF tb] oe by auto
    obtain l where l: "js_or (get b ''life_span'') (Inr (JStr [])) = Inr l" "truthy l \<or> l = JStr []"
      using or_empty_total [of b "get b ''life_span''"] get_truthy [OF tb] oe by auto
    obtain w where w: "js_or
              (js_and (get b ''weight'')
                (js_or (and_then (get b ''weight'') (\<lambda>w. get w ''imperial''))
                       (and_then (get b ''weight'') (\<lambda>w. get w ''metric''))))
              (Inr (JStr [])) = Inr w" "truthy w \<or> w = JStr []"
      using or_empty_total [OF weight_total, of b b] oe by auto
    have "normalizeImageObj_strict imgObj =
        Inr (JObj [(''id'', i), (''imageUrl'', u),
                   (''attributes'', JObj [(''breed'', n), (''temperament'', t),
                                          (''life_span'', l), (''weight'', w)])])"
      using True tb by (simp add: normalizeImageObj_strict_def i u b n(1) t(1) l(1) w(1) and_then_Inr)
    with n(2) t(2) l(2) w(2) show ?thesis by blast
  qed
qed

lemma attempt_body_strict_trace:
  assumes "attempt_body_strict net banList tr = (out, tr')"
  shows "tr' = tr @ [Primary] \<or> tr' = tr @ [Primary, Delay]"
  using assms
  by (auto simp: attempt_body_strict_def Let_def
      split: reply.splits option.splits sum.splits if_splits)

lemma attempt_body_strict_primary:
  assumes "attempt_body_strict net banList tr = (out, tr')"
  shows "primary_calls tr' = Suc (primary_calls tr)"
  using attempt_body_strict_trace [OF assms] by auto

lemma attempt_body_strict_details:
  assumes "attempt_body_strict net banList tr = (out, tr')"
  shows "detail_calls tr' = detail_calls tr"
  using attempt_body_strict_trace [OF assms] by auto

lemma attempts_strict_step:
  obtains
    (exhausted) "\<not> attempt < maxAttempts"
      "attempts_strict net banList maxAttempts attempt tr = (Inl ExhaustionError, tr)"
  | (accepted) r tr1 where "attempt < maxAttempts"
      "attempt_body_strict net banList tr = (Accepted r, tr1)"
      "attempts_strict net banList maxAttempts attempt tr = (Inr r, tr1)"
  | (final) e tr1 where "attempt < maxAttempts" "maxAttempts \<le> attempt + 1"
      "attempt_body_strict net banList tr = (Raised e, tr1)"
      "attempts_strict net banList maxAttempts attempt tr = (Inl e, tr1)"
  | (caught) e tr1 where "attempt + 1 < maxAttempts"
      "attempt_body_strict net banList tr = (Raised e, tr1)"
      "attempts_strict net banList maxAttempts attempt tr =
         attempts_strict net banList maxAttempts (attempt + 1) (tr1 @ [Delay])"
  | (retry) tr1 where "attempt < maxAttempts"
      "attempt_body_strict net banList tr = (Retry, tr1)"
      "attempts_strict net banList maxAttempts attempt tr =
         attempts_strict net banList maxAttempts (attempt + 1) tr1"
proof (cases "attempt < maxAttempts")
  case False
  then show ?thesis by (intro exhausted) (simp_all add: attempts_strict.simps)
next
  case True
  obtain out tr1 where b: "attempt_body_strict net banList tr = (out, tr1)"
    by (cases "attempt_body_strict net banList tr")
  show ?thesis
  proof (cases out)
    case (Accepted r)
    with True b show ?thesis by (intro accepted [of r tr1]) (simp_all add: attempts_strict.simps)
  next
    case (Raised e)
    show ?thesis
    proof (cases "maxAttempts \<le> attempt + 1")
      case t: True
      with True b Raised show ?thesis
        by (intro final [of e tr1]) (simp_all add: attempts_strict.simps)
    next
      case False
      with True b Raised show ?thesis
        by (intro caught [of e tr1]) (simp_all add: attempts_strict.simps)
    qed
  next
    case Retry
    with True b show ?thesis by (intro retry [of tr1]) (simp_all add: attempts_strict.simps)
  qed
qed

lemma attempts_strict_calls:
  "attempts_strict net banList maxAttempts attempt tr = (res, tr') \<Longrightarrow>
   int (primary_calls tr') \<le> int (primary_calls tr) + max 0 (maxAttempts - attempt) \<and>
   detail_calls tr' = detail_calls tr"
proof (induction n \<equiv> "nat (maxAttempts - attempt)" arbitrary: attempt tr)
  case 0
  then have "\<not> attempt < maxAttempts" by simp
  with "0.prems" show ?case by (simp add: attempts_strict.simps)
next
  case (Suc n)
  then have lt: "attempt < maxAttempts" and n: "n = nat (maxAttempts - (attempt + 1))" by simp_all
  show ?case
  proof (cases rule: attempts_strict_step [of attempt maxAttempts net banList tr])
    case exhausted
    with lt show ?thesis by simp
  next
    case (accepted r tr1)
    with Suc.prems attempt_body_strict_primary [OF accepted(2)]
      attempt_body_strict_details [OF accepted(2)] lt show ?thesis by simp
  next
    case (final e tr1)
    with Suc.prems attempt_body_strict_primary [OF final(3)]
      attempt_body_strict_details [OF final(3)] lt show ?thesis by simp
  next
    case (caught e tr1)
    with Suc.prems have "attempts_strict net banList maxAttempts (attempt + 1) (tr1 @ [Delay]) = (res, tr')"
      by simp
    from Suc.hyps(1) [OF n this] attempt_body_strict_primary [OF caught(2)]
      attempt_body_strict_details [OF caught(2)] lt show ?thesis by simp
  next
    case (retry tr1)
    with Suc.prems have "attempts_strict net banList maxAttempts (attempt + 1) tr1 = (res, tr')" by simp
    from Suc.hyps(1) [OF n this] attempt_body_strict_primary [OF retry(2)]
      attempt_body_strict_details [OF retry(2)] lt show ?thesis by simp
  qed
qed

lemma attempts_strict_Inl:
  "attempts_strict net banList maxAttempts attempt tr = (Inl e, tr') \<Longrightarrow>
   int (primary_calls tr) = attempt \<Longrightarrow>
   (e = ExhaustionError \<and> int (primary_calls tr') = max attempt maxAttempts) \<or>
   (\<exists>tr0. attempt_body_strict net banList tr0 = (Raised e, tr') \<and>
          int (primary_calls tr0) = maxAttempts - 1 \<and> int (primary_calls tr') = maxAttempts)"
proof (induction n \<equiv> "nat (maxAttempts - attempt)" arbitrary: attempt tr)
  case 0
  then have "\<not> attempt < maxAttempts" by simp
  with "0.prems" show ?case by (simp add: attempts_strict.simps)
next
  case (Suc n)
  then have lt: "attempt < maxAttempts" and n: "n = nat (maxAttempts - (attempt + 1))" by simp_all
  show ?case
  proof (cases rule: attempts_strict_step [of attempt maxAttempts net banList tr])
    case exhausted
    with lt show ?thesis by simp
  next
    case (accepted x tr1)
    with Suc.prems show ?thesis by simp
  next
    case (final x tr1)
    with Suc.prems have "x = e" "tr1 = tr'" by simp_all
    with final(1,2,3) Suc.prems(2) attempt_body_strict_primary [OF final(3)]
    have "attempt_body_strict net banList tr = (Raised e, tr') \<and>
          int (primary_calls tr) = maxAttempts - 1 \<and> int (primary_calls tr') = maxAttempts"
      by simp
    then show ?thesis by blast
  next
    case (caught x tr1)
    with Suc.prems have a: "attempts_strict net banList maxAttempts (attempt + 1) (tr1 @ [Delay]) = (Inl e, tr')"
      by simp
    have "int (primary_calls (tr1 @ [Delay])) = attempt + 1"
      using attempt_body_strict_primary [OF caught(2)] Suc.prems(2) by simp
    from Suc.hyps(1) [OF n a this] lt show ?thesis by (simp add: max_def)
  next
    case (retry tr1)
    with Suc.prems have a: "attempts_strict net banList maxAttempts (attempt + 1) tr1 = (Inl e, tr')" by simp
    have "int (primary_calls tr1) = attempt + 1"
      using attempt_body_strict_primary [OF retry(2)] Suc.prems(2) by simp
    from Suc.hyps(1) [OF n a this] lt show ?thesis by (simp add: max_def)
  qed
qed

lemma attempts_strict_all_retry:
  assumes "\<And>tr. \<exists>tr1. attempt_body_strict net banList tr = (Retry, tr1)"
  shows "\<exists>tr'. attempts_strict net banList maxAttempts attempt tr = (Inl ExhaustionError, tr') \<and>
               int (primary_calls tr') = int (primary_calls tr) + max 0 (maxAttempts - attempt)"
proof (induction n \<equiv> "nat (maxAttempts - attempt)" arbitrary: attempt tr)
  case 0
  then have "\<not> attempt < maxAttempts" by simp
  then show ?case by (simp add: attempts_strict.simps)
next
  case (Suc n)
  then have lt: "attempt < maxAttempts" and n: "n = nat (maxAttempts - (attempt + 1))" by simp_all
  from assms [of tr] obtain tr1 where b: "attempt_body_strict net banList tr = (Retry, tr1)" by blast
  have p: "primary_calls tr1 = Suc (primary_calls tr)" by (rule attempt_body_strict_primary [OF b])
  from Suc.hyps(1) [OF n, of tr1] obtain tr' where
    "attempts_strict net banList maxAttempts (attempt + 1) tr1 = (Inl ExhaustionError, tr')"
    "int (primary_calls tr') = int (primary_calls tr1) + max 0 (maxAttempts - (attempt + 1))"
    by blast
  with lt b p have "attempts_strict net banList maxAttempts attempt tr = (Inl ExhaustionError, tr') \<and>
               int (primary_calls tr') = int (primary_calls tr) + max 0 (maxAttempts - attempt)"
    by (simp add: attempts_strict.simps [of net banList maxAttempts attempt tr])
  then show ?case by blast
qed

lemma isBanned_strict_or_default: "isBanned_strict item (or_default bl) = isBanned_strict item bl"
  by (simp add: isBanned_strict_def or_default_idem)

lemma excluded_strict_or_default: "excluded_strict (or_default banList) = excluded_strict banList"
proof
  fix data
  show "excluded_strict (or_default banList) data = excluded_strict banList data"
    by (cases "and_then (first_item data) normalizeImageObj_strict")
      (simp_all add: excluded_strict_def isBanned_strict_or_default)
qed

lemma attempt_body_strict_excluded:
  assumes "net (tr @ [Primary]) = Response True status (Some data)"
    and "excluded_strict banList data"
  shows "\<exists>tr1. attempt_body_strict net banList tr = (Retry, tr1)"
  using assms
  by (auto simp: attempt_body_strict_def excluded_strict_def Let_def split: sum.splits)

section \<open>Facts for the claims\<close>

lemma excluded_or_default: "excluded (or_default banList) = excluded banList"
proof
  fix imgObj
  show "excluded (or_default banList) imgObj = excluded banList imgObj"
    by (cases "normalizeImageObj imgObj") (simp_all add: excluded_def isBanned_or_default)
qed

lemma scan_all_excluded:
  "list_all (excluded banList) items \<Longrightarrow> scan net banList items fallback tr = (Completed fallback, tr)"
proof (induction items)
  case Nil
  then show ?case by simp
next
  case (Cons imgObj rest)
  then have x: "excluded banList imgObj" and r: "list_all (excluded banList) rest" by simp_all
  show ?case
  proof (cases rule: scan_step [of banList imgObj net rest fallback tr])
    case skip
    with Cons.IH [OF r] show ?thesis by simp
  next
    case (threw normalized e)
    with x show ?thesis by (simp add: excluded_def)
  next
    case (complete normalized)
    with x show ?thesis by (simp add: excluded_def)
  next
    case (enriched normalized enriched tr1)
    with x show ?thesis by (simp add: excluded_def)
  next
    case (deferred normalized tr1)
    with x show ?thesis by (simp add: excluded_def)
  qed
qed

lemma attempt_body_all_excluded:
  assumes "net (tr @ [Primary]) = Response True status (Some (JArr items))"
    and "list_all (excluded banList) items"
  shows "attempt_body net banList tr = (Retry, tr @ [Primary]) \<or>
         attempt_body net banList tr = (Retry, tr @ [Primary, Delay])"
  using assms scan_all_excluded [OF assms(2), of net JNull "tr @ [Primary]"]
  by (cases "items = []") (simp_all add: attempt_body_def Let_def)

lemma attempts_all_retry:
  assumes "\<And>tr. attempt_body net banList tr = (Retry, tr @ [Primary]) \<or>
                attempt_body net banList tr = (Retry, tr @ [Primary, Delay])"
  shows "\<exists>tr'. attempts net banList maxAttempts attempt tr = (Inl ExhaustionError, tr') \<and>
               int (primary_calls tr') = int (primary_calls tr) + max 0 (maxAttempts - attempt) \<and>
               detail_calls tr' = detail_calls tr"
proof (induction n \<equiv> "nat (maxAttempts - attempt)" arbitrary: attempt tr)
  case 0
  then have "\<not> attempt < maxAttempts" by simp
  then show ?case by (simp add: attempts.simps)
next
  case (Suc n)
  then have lt: "attempt < maxAttempts" and n: "n = nat (maxAttempts - (attempt + 1))" by simp_all
  from assms [of tr] obtain tr1 where
    b: "attempt_body net banList tr = (Retry, tr1)" and
    p: "primary_calls tr1 = Suc (primary_calls tr)" and d: "detail_calls tr1 = detail_calls tr"
    by auto
  from Suc.hyps(1) [OF n, of tr1] obtain tr' where
    "attempts net banList maxAttempts (attempt + 1) tr1 = (Inl ExhaustionError, tr')"
    "int (primary_calls tr') = int (primary_calls tr1) + max 0 (maxAttempts - (attempt + 1))"
    "detail_calls tr' = detail_calls tr1"
    by blast
  with lt b p d have "attempts net banList maxAttempts attempt tr = (Inl ExhaustionError, tr') \<and>
               int (primary_calls tr') = int (primary_calls tr) + max 0 (maxAttempts - attempt) \<and>
               detail_calls tr' = detail_calls tr"
    by (simp add: attempts.simps [of net banList maxAttempts attempt tr])
  then show ?case by blast
qed

lemma scalar_keys_cong:
  "(\<And>k. k \<in> set keys \<Longrightarrow> get bl1 k = get bl2 k) \<Longrightarrow>
   scalar_keys keys attrs bl1 = scalar_keys keys attrs bl2"
proof (induction keys)
  case Nil
  show ?case by simp
next
  case (Cons key keys)
  have g: "get bl1 key = get bl2 key" using Cons.prems by simp
  have r: "scalar_keys keys attrs bl1 = scalar_keys keys attrs bl2"
    using Cons.prems by (intro Cons.IH) simp
  show ?case unfolding scalar_keys.simps g r by (rule refl)
qed

lemma temperament_banned_cong:
  "get bl1 ''temperament'' = get bl2 ''temperament'' \<Longrightarrow>
   temperament_banned attrs bl1 = temperament_banned attrs bl2"
  by (simp add: temperament_banned_def)

lemma get_drop_key_JObj:
  "get (JObj (filter (\<lambda>kv. fst kv \<noteq> k) kvs)) k' =
     (if k' = k then Inr JUndefined else get (JObj kvs) k')"
proof -
  have "map_of (filter (\<lambda>kv. fst kv \<noteq> k) kvs) k' = (if k' = k then None else map_of kvs k')"
    by (induction kvs) auto
  then show ?thesis by simp
qed

lemma trim_Nil [simp]: "trim [] = []"
  by (simp add: trim_def)

lemma eq_no_data:
  assumes "a = JStr [] \<or> nullish a" and "harmless k b" and "k \<noteq> ''temperament''"
  shows "eq a b = Inr False"
proof (cases "nullish a \<or> nullish b")
  case True
  then show ?thesis by (simp add: eq_def)
next
  case False
  with assms(1) have a: "a = JStr []" by blast
  from False assms(2,3) obtain s where "toStr b = Inr s" "trim s \<noteq> []"
    by (auto simp: harmless_def split: sum.splits)
  with False a show ?thesis by (simp add: eq_def and_then_Inr toLowerCase_def)
qed

lemma any_eq_no_data:
  assumes "get attrs k = Inr a" and "a = JStr [] \<or> nullish a"
    and "\<forall>b \<in> set bs. harmless k b" and "k \<noteq> ''temperament''"
  shows "any_eq attrs k bs = Inr False"
  using assms(3)
proof (induction bs)
  case Nil
  show ?case by simp
next
  case (Cons b bs)
  from Cons.prems have "harmless k b" by simp
  then have "eq a b = Inr False" by (rule eq_no_data [OF assms(2) _ assms(4)])
  with Cons assms(1) show ?case by (simp add: and_then_Inr)
qed

lemma any_token_Nil:
  "\<forall>b \<in> set bs. \<exists>s. toStr b = Inr s \<Longrightarrow> any_token [] bs = Inr False"
  by (induction bs) auto

lemma harmless_toStr:
  assumes "harmless k b"
  shows "\<exists>s. toStr b = Inr s"
proof (cases "nullish b")
  case True
  then show ?thesis by (cases b) auto
next
  case False
  with assms show ?thesis by (cases "toStr b") (auto simp: harmless_def)
qed

lemma scalar_keys_neutral:
  assumes "\<And>key. key \<in> set keys \<Longrightarrow> key \<noteq> k \<Longrightarrow> get bl1 key = get bl2 key"
    and "get bl2 k = Inr JUndefined"
    and "\<exists>v. get bl1 k = Inr v \<and> (\<forall>bs. v = JArr bs \<longrightarrow> any_eq attrs k bs = Inr False)"
  shows "scalar_keys keys attrs bl1 = scalar_keys keys attrs bl2"
  using assms(1)
proof (induction keys)
  case Nil
  show ?case by simp
next
  case (Cons key keys)
  have r: "scalar_keys keys attrs bl1 = scalar_keys keys attrs bl2"
    using Cons.prems by (intro Cons.IH) simp
  show ?case
  proof (cases "key = k")
    case False
    then have g: "get bl1 key = get bl2 key" using Cons.prems by simp
    show ?thesis unfolding scalar_keys.simps g r by (rule refl)
  next
    case True
    from assms(3) obtain v where v: "get bl1 k = Inr v" "\<forall>bs. v = JArr bs \<longrightarrow> any_eq attrs k bs = Inr False"
      by blast
    show ?thesis using True v assms(2) r by (cases v) simp_all
  qed
qed

lemma loops_without_key:
  assumes ga: "get attrs k = Inr a" and nd: "a = JStr [] \<or> nullish a"
    and bv: "\<forall>b \<in> set (banned_values (JObj kvs) k). harmless k b"
  shows "scalar_keys [''breed'', ''life_span'', ''weight''] attrs (JObj kvs) =
         scalar_keys [''breed'', ''life_span'', ''weight''] attrs (JObj (filter (\<lambda>kv. fst kv \<noteq> k) kvs))"
    and "temperament_banned attrs (JObj kvs) =
         temperament_banned attrs (JObj (filter (\<lambda>kv. fst kv \<noteq> k) kvs))"
proof -
  let ?bl1 = "JObj kvs" and ?bl2 = "JObj (filter (\<lambda>kv. fst kv \<noteq> k) kvs)"
  obtain v where v: "get ?bl1 k = Inr v" by (cases "map_of kvs k") simp_all
  have hv: "\<forall>b \<in> set bs. harmless k b" if "v = JArr bs" for bs
    using bv that v by (simp add: banned_values_def or_default_def)
  show "scalar_keys [''breed'', ''life_span'', ''weight''] attrs ?bl1 =
        scalar_keys [''breed'', ''life_span'', ''weight''] attrs ?bl2"
  proof (cases "k = ''temperament''")
    case True
    then show ?thesis
      by (intro scalar_keys_cong) (auto simp: get_drop_key_JObj simp del: get.simps)
  next
    case False
    have "\<forall>bs. v = JArr bs \<longrightarrow> any_eq attrs k bs = Inr False"
      using any_eq_no_data [OF ga nd _ False] hv by blast
    with v show ?thesis
      by (intro scalar_keys_neutral [where k = k]) (auto simp: get_drop_key_JObj simp del: get.simps)
  qed
  show "temperament_banned attrs ?bl1 = temperament_banned attrs ?bl2"
  proof (cases "k = ''temperament''")
    case False
    then show ?thesis
      by (intro temperament_banned_cong) (simp add: get_drop_key_JObj del: get.simps)
  next
    case k: True
    have r: "temperament_banned attrs ?bl2 = Inr False"
      using k by (simp add: temperament_banned_def get_drop_key_JObj and_then_Inr del: get.simps)
    have l: "temperament_banned attrs ?bl1 = Inr False"
    proof (cases "\<exists>bs. v = JArr bs \<and> bs \<noteq> []")
      case False
      with v k show ?thesis
        by (cases v) (auto simp: temperament_banned_def and_then_Inr simp del: get.simps)
    next
      case True
      then obtain bs where bs: "v = JArr bs" "bs \<noteq> []" by blast
      have tv: "js_or (get attrs ''temperament'') (Inr (JStr [])) = Inr (JStr [])"
        using ga nd k by (cases a) (auto simp: js_or_Inr)
      have tk: "tokens_of (JStr []) = Inr []"
        by (simp add: tokens_of_def toLowerCase_def)
      have "any_token [] bs = Inr False"
        using hv [OF bs(1)] harmless_toStr by (intro any_token_Nil) blast
      with v k bs tv tk show ?thesis
        by (simp add: temperament_banned_def and_then_Inr del: get.simps)
    qed
    from l r show ?thesis by simp
  qed
qed

lemma attribute_get:
  assumes "get item ''attributes'' = Inr attrs" and "truthy attrs"
  shows "get attrs k = Inr (attribute item k)"
proof -
  from get_truthy [OF assms(2)] obtain v where "get attrs k = Inr v" by blast
  with assms(1) show ?thesis by (simp add: attribute_def and_then_Inr)
qed

lemma enrichable_or_default: "enrichable (or_default banList) = enrichable banList"
proof (intro ext)
  fix imgObj i
  show "enrichable (or_default banList) imgObj i = enrichable banList imgObj i"
    by (cases "normalizeImageObj imgObj") (simp_all add: enrichable_def isBanned_or_default)
qed

lemma enrich_detail:
  assumes "enrich net banList normalized tr = (r, tr')" and "Detail i \<in> set tr'"
  shows "Detail i \<in> set tr \<or> and_then (get normalized ''id'') toStr = Inr i"
  using enrich_cases [OF assms(1)] assms(2) by auto

lemma enrich_has_breed:
  assumes "enrich net banList normalized tr = (Some enriched, tr')"
  shows "has_breed enriched"
  using enrich_cases [OF assms] by (auto simp: has_breed_def)

lemma scan_detail:
  "scan net banList items fallback tr = (out, tr') \<Longrightarrow> Detail i \<in> set tr' \<Longrightarrow>
   Detail i \<in> set tr \<or> (\<exists>x \<in> set items. enrichable banList x i)"
proof (induction items arbitrary: fallback tr)
  case Nil
  then show ?case by simp
next
  case (Cons imgObj rest)
  show ?case
  proof (cases rule: scan_step [of banList imgObj net rest fallback tr])
    case skip
    with Cons.prems Cons.IH [of fallback tr] show ?thesis by auto
  next
    case (threw normalized e)
    with Cons.prems show ?thesis by simp
  next
    case (complete normalized)
    with Cons.prems show ?thesis by simp
  next
    case (enriched normalized enriched tr1)
    with Cons.prems have "Detail i \<in> set tr1" by simp
    from enrich_detail [OF enriched(5) this] enriched(1-4) show ?thesis
      by (auto simp: enrichable_def)
  next
    case (deferred normalized tr1)
    with Cons.prems
    have "scan net banList rest (if \<not> truthy fallback then normalized else fallback) tr1 = (out, tr')"
      by simp
    from Cons.IH [OF this Cons.prems(2)]
    have "Detail i \<in> set tr1 \<or> (\<exists>x \<in> set rest. enrichable banList x i)" .
    then show ?thesis
    proof
      assume "Detail i \<in> set tr1"
      from enrich_detail [OF deferred(5) this] deferred(1-4) show ?thesis
        by (auto simp: enrichable_def)
    next
      assume "\<exists>x \<in> set rest. enrichable banList x i"
      then show ?thesis by auto
    qed
  qed
qed

lemma answeredI:
  assumes "tr = h @ Primary # rest"
    and "net (h @ [Primary]) = Response True status (Some (JArr items))"
    and "x \<in> set items" and "enrichable banList x i"
  shows "answered net banList tr i"
  unfolding answered_def using assms by blast

lemma answered_append:
  assumes "answered net banList tr i"
  shows "answered net banList (tr @ ev) i"
proof -
  from assms obtain h rest status items x where
    a: "tr = h @ Primary # rest"
      "net (h @ [Primary]) = Response True status (Some (JArr items))"
      "x \<in> set items" "enrichable banList x i"
    unfolding answered_def by blast
  from a(1) have "tr @ ev = h @ Primary # (rest @ ev)" by simp
  from answeredI [where net = net and h = h, OF this a(2,3,4)] show ?thesis .
qed

lemma attempt_body_prefix:
  assumes "attempt_body net banList tr = (out, tr')"
  shows "\<exists>ev. tr' = tr @ Primary # ev"
  using attempt_body_trace [OF assms] by blast

lemma attempt_body_detail:
  assumes "attempt_body net banList tr = (out, tr')" and "Detail i \<in> set tr'"
  shows "Detail i \<in> set tr \<or> answered net banList tr' i"
proof (cases "\<exists>status items. net (tr @ [Primary]) = Response True status (Some (JArr items)) \<and> items \<noteq> []")
  case False
  with assms(1) have "tr' = tr @ [Primary]"
    by (auto simp: attempt_body_def Let_def split: reply.splits option.splits jsval.splits if_splits)
  with assms(2) show ?thesis by simp
next
  case True
  then obtain status items where r: "net (tr @ [Primary]) = Response True status (Some (JArr items))" "items \<noteq> []"
    by blast
  obtain s tr2 where s: "scan net banList items JNull (tr @ [Primary]) = (s, tr2)"
    by (cases "scan net banList items JNull (tr @ [Primary])")
  from scan_trace [OF s] obtain ev where ev: "tr2 = (tr @ [Primary]) @ ev" by blast
  from assms(1) r s have t: "tr' = tr2 \<or> tr' = tr2 @ [Delay]"
    by (auto simp: attempt_body_def Let_def split: scanned.splits if_splits)
  with assms(2) have "Detail i \<in> set tr2" by auto
  from scan_detail [OF s this] have "Detail i \<in> set tr \<or> (\<exists>x \<in> set items. enrichable banList x i)"
    by simp
  then show ?thesis
  proof
    assume "\<exists>x \<in> set items. enrichable banList x i"
    then obtain x where x: "x \<in> set items" "enrichable banList x i" by blast
    from ev have "tr2 = tr @ Primary # ev" by simp
    from answeredI [where net = net and h = tr, OF this r(1) x]
    have a: "answered net banList tr2 i" .
    from t show ?thesis
    proof
      assume "tr' = tr2"
      with a show ?thesis by simp
    next
      assume "tr' = tr2 @ [Delay]"
      with answered_append [OF a, of "[Delay]"] show ?thesis by simp
    qed
  qed simp
qed

lemma attempts_prefix:
  "attempts net banList maxAttempts attempt tr = (res, tr') \<Longrightarrow> \<exists>ev. tr' = tr @ ev"
proof (induction n \<equiv> "nat (maxAttempts - attempt)" arbitrary: attempt tr)
  case 0
  then have "\<not> attempt < maxAttempts" by simp
  with "0.prems" show ?case by (simp add: attempts.simps)
next
  case (Suc n)
  then have lt: "attempt < maxAttempts" and n: "n = nat (maxAttempts - (attempt + 1))" by simp_all
  show ?case
  proof (cases rule: attempts_step [of attempt maxAttempts net banList tr])
    case exhausted
    with lt show ?thesis by simp
  next
    case (accepted r tr1)
    with Suc.prems attempt_body_prefix [OF accepted(2)] show ?thesis by auto
  next
    case (final e tr1)
    with Suc.prems attempt_body_prefix [OF final(3)] show ?thesis by auto
  next
    case (caught e tr1)
    with Suc.prems have a: "attempts net banList maxAttempts (attempt + 1) (tr1 @ [Delay]) = (res, tr')" by simp
    from Suc.hyps(1) [OF n a] attempt_body_prefix [OF caught(2)] show ?thesis by auto
  next
    case (retry tr1)
    with Suc.prems have a: "attempts net banList maxAttempts (attempt + 1) tr1 = (res, tr')" by simp
    from Suc.hyps(1) [OF n a] attempt_body_prefix [OF retry(2)] show ?thesis by auto
  qed
qed

lemma attempts_detail:
  "attempts net banList maxAttempts attempt tr = (res, tr') \<Longrightarrow> Detail i \<in> set tr' \<Longrightarrow>
   Detail i \<in> set tr \<or> answered net banList tr' i"
proof (induction n \<equiv> "nat (maxAttempts - attempt)" arbitrary: attempt tr)
  case 0
  then have "\<not> attempt < maxAttempts" by simp
  with "0.prems" show ?case by (simp add: attempts.simps)
next
  case (Suc n)
  then have lt: "attempt < maxAttempts" and n: "n = nat (maxAttempts - (attempt + 1))" by simp_all
  show ?case
  proof (cases rule: attempts_step [of attempt maxAttempts net banList tr])
    case exhausted
    with lt show ?thesis by simp
  next
    case (accepted r tr1)
    with Suc.prems attempt_body_detail [OF accepted(2)] show ?thesis by simp
  next
    case (final e tr1)
    with Suc.prems attempt_body_detail [OF final(3)] show ?thesis by simp
  next
    case (caught e tr1)
    with Suc.prems have a: "attempts net banList maxAttempts (attempt + 1) (tr1 @ [Delay]) = (res, tr')" by simp
    from attempts_prefix [OF a] obtain ev where ev: "tr' = (tr1 @ [Delay]) @ ev" by blast
    from Suc.hyps(1) [OF n a Suc.prems(2)]
    have "Detail i \<in> set tr1 \<or> answered net banList tr' i" by simp
    then show ?thesis
    proof
      assume "Detail i \<in> set tr1"
      from attempt_body_detail [OF caught(2) this]
      have "Detail i \<in> set tr \<or> answered net banList tr1 i" .
      moreover from ev have "tr' = tr1 @ (Delay # ev)" by simp
      ultimately show ?thesis using answered_append [of net banList tr1 i "Delay # ev"] by metis
    qed simp
  next
    case (retry tr1)
    with Suc.prems have a: "attempts net banList maxAttempts (attempt + 1) tr1 = (res, tr')" by simp
    from attempts_prefix [OF a] obtain ev where ev: "tr' = tr1 @ ev" by blast
    from Suc.hyps(1) [OF n a Suc.prems(2)]
    have "Detail i \<in> set tr1 \<or> answered net banList tr' i" .
    then show ?thesis
    proof
      assume "Detail i \<in> set tr1"
      from attempt_body_detail [OF retry(2) this]
      have "Detail i \<in> set tr \<or> answered net banList tr1 i" .
      then show ?thesis using ev answered_append [of net banList tr1 i ev] by metis
    qed simp
  qed
qed

lemma scan_excluded_head:
  assumes "excluded banList imgObj"
  shows "scan net banList (imgObj # rest) fallback tr = scan net banList rest fallback tr"
proof -
  obtain normalized where n: "normalizeImageObj imgObj = Inr normalized"
    using normalizeImageObj_total by blast
  with assms have "\<not> truthy normalized \<or> isBanned normalized banList = Inr True"
    by (simp add: excluded_def)
  then show ?thesis
  proof
    assume "\<not> truthy normalized"
    with n show ?thesis by simp
  next
    assume "isBanned normalized banList = Inr True"
    with n show ?thesis by simp
  qed
qed

lemma has_breed_get:
  assumes "truthy normalized"
  obtains hb where "get normalized ''hasBreed'' = Inr hb" and "has_breed normalized = truthy hb"
proof -
  from get_truthy [OF assms] obtain hb where "get normalized ''hasBreed'' = Inr hb" by blast
  then show ?thesis using that by (simp add: has_breed_def)
qed

lemma scan_deferred_head:
  assumes "normalizeImageObj imgObj = Inr normalized" and "truthy normalized"
    and "isBanned normalized banList = Inr False" and "\<not> has_breed normalized"
    and "enrich net banList normalized tr = (None, tr1)"
  shows "scan net banList (imgObj # rest) fallback tr =
         scan net banList rest (if \<not> truthy fallback then normalized else fallback) tr1"
proof -
  from has_breed_get [OF assms(2)] obtain hb where
    "get normalized ''hasBreed'' = Inr hb" "has_breed normalized = truthy hb" by blast
  with assms show ?thesis by simp
qed

lemma scan_append:
  "scan net banList pre fallback tr = (Completed fb, tr1) \<Longrightarrow>
   scan net banList (pre @ rest) fallback tr = scan net banList rest fb tr1"
proof (induction pre arbitrary: fallback tr)
  case Nil
  then show ?case by simp
next
  case (Cons imgObj pre)
  show ?case
  proof (cases rule: scan_step [of banList imgObj net pre fallback tr])
    case skip
    have "scan net banList (imgObj # pre @ rest) fallback tr = scan net banList (pre @ rest) fallback tr"
      by (rule scan_excluded_head [OF skip(1)])
    moreover from Cons.prems skip(2) have "scan net banList pre fallback tr = (Completed fb, tr1)"
      by simp
    ultimately show ?thesis using Cons.IH by simp
  next
    case (threw normalized e)
    with Cons.prems show ?thesis by simp
  next
    case (complete normalized)
    with Cons.prems show ?thesis by simp
  next
    case (enriched normalized enriched tr1)
    with Cons.prems show ?thesis by simp
  next
    case (deferred normalized tr2)
    have "scan net banList (imgObj # pre @ rest) fallback tr =
          scan net banList (pre @ rest) (if \<not> truthy fallback then normalized else fallback) tr2"
      by (rule scan_deferred_head [OF deferred(1-5)])
    moreover from Cons.prems deferred(6)
    have "scan net banList pre (if \<not> truthy fallback then normalized else fallback) tr2 = (Completed fb, tr1)"
      by simp
    ultimately show ?thesis using Cons.IH by simp
  qed
qed

lemma scan_complete_head:
  assumes "normalizeImageObj imgObj = Inr normalized" and "truthy normalized"
    and "isBanned normalized banList = Inr False" and "has_breed normalized"
  shows "scan net banList (imgObj # rest) fallback tr = (Returned normalized, tr)"
proof -
  from has_breed_get [OF assms(2)] obtain hb where
    "get normalized ''hasBreed'' = Inr hb" "has_breed normalized = truthy hb" by blast
  with assms show ?thesis by simp
qed

lemma scan_keeps_fallback:
  assumes "scan net banList items fallback tr = (Completed fb, tr')" and "truthy fallback"
  shows "fb = fallback"
  using scan_Completed [OF assms(1)] assms(2) by blast

lemma scan_first_fallback:
  "scan net banList items fallback tr = (Completed fb, tr') \<Longrightarrow> \<not> truthy fallback \<Longrightarrow> truthy fb \<Longrightarrow>
   \<exists>pre x post. items = pre @ x # post \<and> list_all (excluded banList) pre \<and>
                 normalizeImageObj x = Inr fb \<and> incomplete banList x"
proof (induction items arbitrary: tr)
  case Nil
  then show ?case by simp
next
  case (Cons imgObj rest)
  show ?case
  proof (cases rule: scan_step [of banList imgObj net rest fallback tr])
    case skip
    with Cons.prems have "scan net banList rest fallback tr = (Completed fb, tr')" by simp
    from Cons.IH [OF this Cons.prems(2,3)] obtain pre x post where
      "rest = pre @ x # post" "list_all (excluded banList) pre"
      "normalizeImageObj x = Inr fb" "incomplete banList x"
      by blast
    with skip(1) have "imgObj # rest = (imgObj # pre) @ x # post \<and> list_all (excluded banList) (imgObj # pre) \<and>
       normalizeImageObj x = Inr fb \<and> incomplete banList x"
      by simp
    then show ?thesis by blast
  next
    case (threw normalized e)
    with Cons.prems show ?thesis by simp
  next
    case (complete normalized)
    with Cons.prems show ?thesis by simp
  next
    case (enriched normalized enriched tr1)
    with Cons.prems show ?thesis by simp
  next
    case (deferred normalized tr1)
    with Cons.prems have "scan net banList rest normalized tr1 = (Completed fb, tr')" by simp
    from scan_keeps_fallback [OF this deferred(2)] have "fb = normalized" .
    with deferred(1-4) have "imgObj # rest = [] @ imgObj # rest \<and> list_all (excluded banList) [] \<and>
       normalizeImageObj imgObj = Inr fb \<and> incomplete banList imgObj"
      by (simp add: incomplete_def)
    then show ?thesis by blast
  qed
qed

lemma scan_Completed_all:
  "scan net banList items fallback tr = (Completed fb, tr') \<Longrightarrow>
   list_all (\<lambda>x. excluded banList x \<or> incomplete banList x) items"
proof (induction items arbitrary: fallback tr)
  case Nil
  then show ?case by simp
next
  case (Cons imgObj rest)
  show ?case
  proof (cases rule: scan_step [of banList imgObj net rest fallback tr])
    case skip
    with Cons show ?thesis by simp
  next
    case (threw normalized e)
    with Cons.prems show ?thesis by simp
  next
    case (complete normalized)
    with Cons.prems show ?thesis by simp
  next
    case (enriched normalized enriched tr1)
    with Cons.prems show ?thesis by simp
  next
    case (deferred normalized tr1)
    with Cons.prems
    have "scan net banList rest (if \<not> truthy fallback then normalized else fallback) tr1 = (Completed fb, tr')"
      by simp
    from Cons.IH [OF this] deferred(1-4) show ?thesis by (simp add: incomplete_def)
  qed
qed

lemma scan_Returned_has_breed:
  "scan net banList items fallback tr = (Returned r, tr') \<Longrightarrow> has_breed r"
proof (induction items arbitrary: fallback tr)
  case Nil
  then show ?case by simp
next
  case (Cons imgObj rest)
  show ?case
  proof (cases rule: scan_step [of banList imgObj net rest fallback tr])
    case skip
    with Cons show ?thesis by simp
  next
    case (threw normalized e)
    with Cons.prems show ?thesis by simp
  next
    case (complete normalized)
    with Cons.prems show ?thesis by simp
  next
    case (enriched normalized enriched tr1)
    with Cons.prems enrich_has_breed [OF enriched(5)] show ?thesis by simp
  next
    case (deferred normalized tr1)
    with Cons show ?thesis by simp
  qed
qed

lemma attempt_body_fallback:
  assumes "attempt_body net banList tr = (Accepted r, tr')" and "\<not> has_breed r"
  shows "\<exists>status items.
           net (tr @ [Primary]) = Response True status (Some (JArr items)) \<and>
           scan net banList items JNull (tr @ [Primary]) = (Completed r, tr') \<and>
           list_all (\<lambda>x. excluded banList x \<or> incomplete banList x) items"
proof -
  from assms(1) obtain status items where r: "net (tr @ [Primary]) = Response True status (Some (JArr items))" "items \<noteq> []"
    by (auto simp: attempt_body_def Let_def split: reply.splits option.splits jsval.splits if_splits)
  obtain s tr2 where s: "scan net banList items JNull (tr @ [Primary]) = (s, tr2)"
    by (cases "scan net banList items JNull (tr @ [Primary])")
  show ?thesis
  proof (cases s)
    case (Returned x)
    with assms(1) r s have "x = r" by (simp add: attempt_body_def)
    with Returned s scan_Returned_has_breed assms(2) show ?thesis by blast
  next
    case (Threw e)
    with assms(1) r s show ?thesis by (simp add: attempt_body_def)
  next
    case (Completed fb)
    with assms(1) r s have "fb = r" "tr2 = tr'" by (auto simp: attempt_body_def split: if_splits)
    with Completed s have c: "scan net banList items JNull (tr @ [Primary]) = (Completed r, tr')" by simp
    from scan_Completed_all [OF c] r(1) c show ?thesis by blast
  qed
qed

section \<open>The claims\<close>

subsection \<open>C1: a returned record respects the ban list\<close>

text \<open>
  C1 as stated fails on the temperament: the matcher drops the empty tokens before it
  compares (\<^verbatim>\<open>filter(Boolean)\<close>), so a record is returned although the token
  between its two commas, the empty one, equals the banned empty text.
\<close>

theorem returned_record_blank_token_counterexample:
  "fetchRandomDog (Some (steady (JArr [mute]))) blank_ban (Some 1) =
     (Inr mute_record, [Primary]) \<and>
   \<not> tokens_respected_as_stated mute_record blank_ban"
  by code_simp

text \<open>
  C1, amended: for every runtime, network, ban list and budget, a record that
  \<open>fetchRandomDog\<close> resolves with has no scalar attribute (breed, life_span, weight)
  that clashes with a banned value of its key, and no token of its temperament that is
  not blank and clashes with a banned temperament.
\<close>

theorem returned_record_respects_bans:
  assumes "fetchRandomDog fetch banList maxAttempts = (Inr item, tr)"
  shows "scalars_respected item banList \<and> tokens_respected item banList"
proof -
  from assms obtain net where
    "attempts net (or_default banList) (or_eight maxAttempts) 0 [] = (Inr item, tr)"
    by (cases fetch) (simp_all add: fetchRandomDog_def)
  then have "isBanned item (or_default banList) = Inr False" by (rule attempts_Inr)
  then have nb: "isBanned item banList = Inr False" by (simp add: isBanned_or_default)
  have "scalars_respected item banList"
    unfolding scalars_respected_def using isBanned_False_scalar [OF nb] by blast
  moreover have "tokens_respected item banList"
    unfolding tokens_respected_def using isBanned_False_temperament [OF nb] by blast
  ultimately show ?thesis by simp
qed

theorem returned_record_respects_bans_witness:
  "fetchRandomDog (Some (steady (JArr [beagle]))) friendly_ban None = (Inr beagle_record, [Primary]) \<and>
   scalars_respected beagle_record friendly_ban \<and>
   tokens_respected beagle_record friendly_ban"
proof -
  have "fetchRandomDog (Some (steady (JArr [beagle]))) friendly_ban None = (Inr beagle_record, [Primary])"
    by code_simp
  from returned_record_respects_bans [OF this] this show ?thesis by simp
qed

subsection \<open>C2: the attempt budget bounds the primary calls\<close>

text \<open>
  C2. Whatever the runtime, the network, the ban list and \<open>maxAttempts\<close>, the history
  of one invocation of \<open>fetchRandomDog\<close>, in either revision, holds at most
  \<open>maxAttempts\<close> requests to the search endpoint (none when \<open>maxAttempts\<close> is
  negative); detail requests and pauses are not counted. The bound holds on every path,
  since it is a property of the history whatever the result is.
\<close>

theorem primary_calls_bounded:
  "int (primary_calls (snd (fetchRandomDog fetch banList maxAttempts))) \<le> max 0 (or_eight maxAttempts) \<and>
   int (primary_calls (snd (fetchRandomDog_strict fetch banList maxAttempts))) \<le> max 0 (or_eight maxAttempts)"
proof (cases fetch)
  case None
  then show ?thesis by (simp add: fetchRandomDog_def fetchRandomDog_strict_def)
next
  case (Some net)
  obtain res tr where a: "attempts net (or_default banList) (or_eight maxAttempts) 0 [] = (res, tr)"
    by (cases "attempts net (or_default banList) (or_eight maxAttempts) 0 []")
  obtain res' tr' where b: "attempts_strict net (or_default banList) (or_eight maxAttempts) 0 [] = (res', tr')"
    by (cases "attempts_strict net (or_default banList) (or_eight maxAttempts) 0 []")
  from attempts_primary [OF a] attempts_strict_calls [OF b] Some a b show ?thesis
    by (simp add: fetchRandomDog_def fetchRandomDog_strict_def)
qed

theorem primary_calls_bounded_witness:
  "primary_calls (snd (fetchRandomDog (Some down) JUndefined (Some 2))) = 2 \<and>
   primary_calls (snd (fetchRandomDog_strict (Some down) JUndefined (Some 2))) = 2 \<and>
   int (primary_calls (snd (fetchRandomDog (Some down) JUndefined (Some 2)))) \<le> 2 \<and>
   int (primary_calls (snd (fetchRandomDog_strict (Some down) JUndefined (Some 2)))) \<le> 2"
proof -
  have "primary_calls (snd (fetchRandomDog (Some down) JUndefined (Some 2))) = 2"
    by code_simp
  moreover have "primary_calls (snd (fetchRandomDog_strict (Some down) JUndefined (Some 2))) = 2"
    by code_simp
  moreover have "int (primary_calls (snd (fetchRandomDog (Some down) JUndefined (Some 2)))) \<le> 2 \<and>
    int (primary_calls (snd (fetchRandomDog_strict (Some down) JUndefined (Some 2)))) \<le> 2"
    using primary_calls_bounded [of "Some down" JUndefined "Some 2"]
    by (simp add: or_eight_def)
  ultimately show ?thesis by simp
qed

subsection \<open>C3: exhaustion when every candidate is excluded\<close>

text \<open>
  C3. Let every primary request, whatever the history, be answered with a batch whose
  candidates are all excluded by the ban list: each normalizes to nothing, or
  \<open>isBanned\<close> returns true for it. Then no candidate is ever recorded as fallback, no
  detail request is made, and \<open>fetchRandomDog\<close> rejects with the exhaustion error after
  exactly \<open>maxAttempts\<close> primary requests (none for a negative \<open>maxAttempts\<close>).
  The single-item revision does the same when the first item of every body is excluded.
\<close>

theorem exhaustion_after_all_attempts:
  "((\<forall>tr. \<exists>status items.
        net (tr @ [Primary]) = Response True status (Some (JArr items)) \<and>
        list_all (excluded banList) items) \<longrightarrow>
    (\<exists>tr. fetchRandomDog (Some net) banList maxAttempts = (Inl ExhaustionError, tr) \<and>
          int (primary_calls tr) = max 0 (or_eight maxAttempts) \<and>
          detail_calls tr = 0)) \<and>
   ((\<forall>tr. \<exists>status data.
        net (tr @ [Primary]) = Response True status (Some data) \<and>
        excluded_strict banList data) \<longrightarrow>
    (\<exists>tr. fetchRandomDog_strict (Some net) banList maxAttempts = (Inl ExhaustionError, tr) \<and>
          int (primary_calls tr) = max 0 (or_eight maxAttempts)))"
proof (intro conjI impI)
  assume h: "\<forall>tr. \<exists>status items.
        net (tr @ [Primary]) = Response True status (Some (JArr items)) \<and>
        list_all (excluded banList) items"
  have "attempt_body net (or_default banList) tr = (Retry, tr @ [Primary]) \<or>
        attempt_body net (or_default banList) tr = (Retry, tr @ [Primary, Delay])" for tr
  proof -
    from spec [OF h, of tr] obtain status items where
      "net (tr @ [Primary]) = Response True status (Some (JArr items))"
      "list_all (excluded (or_default banList)) items"
      by (auto simp: excluded_or_default)
    then show ?thesis by (rule attempt_body_all_excluded)
  qed
  from attempts_all_retry [of net "or_default banList" "or_eight maxAttempts" 0 "[]", OF this]
  show "\<exists>tr. fetchRandomDog (Some net) banList maxAttempts = (Inl ExhaustionError, tr) \<and>
          int (primary_calls tr) = max 0 (or_eight maxAttempts) \<and>
          detail_calls tr = 0"
    by (simp add: fetchRandomDog_def)
next
  assume h: "\<forall>tr. \<exists>status data.
        net (tr @ [Primary]) = Response True status (Some data) \<and>
        excluded_strict banList data"
  have "\<exists>tr1. attempt_body_strict net (or_default banList) tr = (Retry, tr1)" for tr
  proof -
    from spec [OF h, of tr] obtain status data where
      "net (tr @ [Primary]) = Response True status (Some data)"
      "excluded_strict (or_default banList) data"
      by (auto simp: excluded_strict_or_default)
    then show ?thesis by (rule attempt_body_strict_excluded)
  qed
  from attempts_strict_all_retry [of net "or_default banList" "or_eight maxAttempts" 0 "[]", OF this]
  show "\<exists>tr. fetchRandomDog_strict (Some net) banList maxAttempts = (Inl ExhaustionError, tr) \<and>
          int (primary_calls tr) = max 0 (or_eight maxAttempts)"
    by (simp add: fetchRandomDog_strict_def)
qed

theorem exhaustion_after_all_attempts_witness:
  "list_all (excluded beagle_ban) [beagle] \<and>
   excluded_strict beagle_ban (JArr [beagle]) \<and>
   fetchRandomDog (Some (steady (JArr [beagle]))) beagle_ban (Some 3) =
     (Inl ExhaustionError, [Primary, Delay, Primary, Delay, Primary, Delay]) \<and>
   fetchRandomDog_strict (Some (steady (JArr [beagle]))) beagle_ban (Some 3) =
     (Inl ExhaustionError, [Primary, Delay, Primary, Delay, Primary, Delay]) \<and>
   (\<exists>tr. fetchRandomDog (Some (steady (JArr [beagle]))) beagle_ban (Some 3) =
          (Inl ExhaustionError, tr) \<and>
        int (primary_calls tr) = 3 \<and> detail_calls tr = 0) \<and>
   (\<exists>tr. fetchRandomDog_strict (Some (steady (JArr [beagle]))) beagle_ban (Some 3) =
          (Inl ExhaustionError, tr) \<and>
        int (primary_calls tr) = 3)"
proof -
  have x: "list_all (excluded beagle_ban) [beagle]" by code_simp
  have x': "excluded_strict beagle_ban (JArr [beagle])" by code_simp
  have e: "fetchRandomDog (Some (steady (JArr [beagle]))) beagle_ban (Some 3) =
     (Inl ExhaustionError, [Primary, Delay, Primary, Delay, Primary, Delay])"
    by code_simp
  have e': "fetchRandomDog_strict (Some (steady (JArr [beagle]))) beagle_ban (Some 3) =
     (Inl ExhaustionError, [Primary, Delay, Primary, Delay, Primary, Delay])"
    by code_simp
  note t = exhaustion_after_all_attempts [of "steady (JArr [beagle])"
      beagle_ban "Some 3"]
  have h: "\<forall>tr. \<exists>status items.
      steady (JArr [beagle]) (tr @ [Primary]) = Response True status (Some (JArr items)) \<and>
      list_all (excluded beagle_ban) items"
    using x by (simp add: steady_def)
  have h': "\<forall>tr. \<exists>status data.
      steady (JArr [beagle]) (tr @ [Primary]) = Response True status (Some data) \<and>
      excluded_strict beagle_ban data"
    using x' by (simp add: steady_def)
  from conjunct1 [OF t, THEN mp, OF h]
  have "\<exists>tr. fetchRandomDog (Some (steady (JArr [beagle]))) beagle_ban (Some 3) =
          (Inl ExhaustionError, tr) \<and>
        int (primary_calls tr) = 3 \<and> detail_calls tr = 0"
    by (simp add: or_eight_def)
  moreover from conjunct2 [OF t, THEN mp, OF h']
  have "\<exists>tr. fetchRandomDog_strict (Some (steady (JArr [beagle]))) beagle_ban (Some 3) =
          (Inl ExhaustionError, tr) \<and>
        int (primary_calls tr) = 3"
    by (simp add: or_eight_def)
  ultimately show ?thesis using x x' e e' by blast
qed

subsection \<open>C4: which errors leave the loop\<close>

text \<open>
  C4. Once the loop is entered (the runtime has \<^verbatim>\<open>fetch\<close>), an invocation that
  rejects does so with the exhaustion error, or with the error raised by the body of the
  final attempt: the attempt that started after \<open>maxAttempts - 1\<close> primary requests and
  ends with \<open>maxAttempts\<close> of them. An error raised by the body of an earlier attempt
  (the incremented counter is still below \<open>maxAttempts\<close>) is swallowed: the loop goes on
  with the next attempt after the pause, and its result does not depend on that error.
  The first two conjuncts say this of the batch revision, the last two of the
  single-item revision.
\<close>

theorem errors_escape_only_at_the_end:
  "(fetchRandomDog (Some net) banList maxAttempts = (Inl e, tr) \<longrightarrow>
      e = ExhaustionError \<or>
      (\<exists>tr0. attempt_body net (or_default banList) tr0 = (Raised e, tr) \<and>
             int (primary_calls tr0) = or_eight maxAttempts - 1 \<and>
             int (primary_calls tr) = or_eight maxAttempts)) \<and>
   (attempt + 1 < m \<longrightarrow> attempt_body net bl tr1 = (Raised e1, tr2) \<longrightarrow>
      attempts net bl m attempt tr1 = attempts net bl m (attempt + 1) (tr2 @ [Delay])) \<and>
   (fetchRandomDog_strict (Some net) banList maxAttempts = (Inl e, tr) \<longrightarrow>
      e = ExhaustionError \<or>
      (\<exists>tr0. attempt_body_strict net (or_default banList) tr0 = (Raised e, tr) \<and>
             int (primary_calls tr0) = or_eight maxAttempts - 1 \<and>
             int (primary_calls tr) = or_eight maxAttempts)) \<and>
   (attempt + 1 < m \<longrightarrow> attempt_body_strict net bl tr1 = (Raised e1, tr2) \<longrightarrow>
      attempts_strict net bl m attempt tr1 = attempts_strict net bl m (attempt + 1) (tr2 @ [Delay]))"
proof (intro conjI impI)
  assume "fetchRandomDog (Some net) banList maxAttempts = (Inl e, tr)"
  then have "attempts net (or_default banList) (or_eight maxAttempts) 0 [] = (Inl e, tr)"
    by (simp add: fetchRandomDog_def)
  from attempts_Inl [OF this]
  show "e = ExhaustionError \<or>
      (\<exists>tr0. attempt_body net (or_default banList) tr0 = (Raised e, tr) \<and>
             int (primary_calls tr0) = or_eight maxAttempts - 1 \<and>
             int (primary_calls tr) = or_eight maxAttempts)"
    by auto
next
  assume "attempt + 1 < m" and "attempt_body net bl tr1 = (Raised e1, tr2)"
  then show "attempts net bl m attempt tr1 = attempts net bl m (attempt + 1) (tr2 @ [Delay])"
    by (simp add: attempts.simps [of net bl m attempt tr1])
next
  assume "fetchRandomDog_strict (Some net) banList maxAttempts = (Inl e, tr)"
  then have "attempts_strict net (or_default banList) (or_eight maxAttempts) 0 [] = (Inl e, tr)"
    by (simp add: fetchRandomDog_strict_def)
  from attempts_strict_Inl [OF this]
  show "e = ExhaustionError \<or>
      (\<exists>tr0. attempt_body_strict net (or_default banList) tr0 = (Raised e, tr) \<and>
             int (primary_calls tr0) = or_eight maxAttempts - 1 \<and>
             int (primary_calls tr) = or_eight maxAttempts)"
    by auto
next
  assume "attempt + 1 < m" and "attempt_body_strict net bl tr1 = (Raised e1, tr2)"
  then show "attempts_strict net bl m attempt tr1 = attempts_strict net bl m (attempt + 1) (tr2 @ [Delay])"
    by (simp add: attempts_strict.simps [of net bl m attempt tr1])
qed

theorem errors_escape_only_at_the_end_witness:
  "fetchRandomDog (Some flaky) JUndefined (Some 2) =
     (Inl (ApiError ''503 Service Unavailable''), [Primary, Delay, Primary]) \<and>
   fetchRandomDog_strict (Some flaky) JUndefined (Some 2) =
     (Inl (ApiError ''503 Service Unavailable''), [Primary, Delay, Primary]) \<and>
   attempt_body flaky (JObj []) [Primary, Delay] =
     (Raised (ApiError ''503 Service Unavailable''), [Primary, Delay, Primary]) \<and>
   attempt_body flaky (JObj []) [] = (Raised TransportError, [Primary]) \<and>
   attempt_body_strict flaky (JObj []) [] = (Raised TransportError, [Primary]) \<and>
   attempts flaky (JObj []) 2 0 [] = attempts flaky (JObj []) 2 1 [Primary, Delay] \<and>
   attempts_strict flaky (JObj []) 2 0 [] = attempts_strict flaky (JObj []) 2 1 [Primary, Delay]"
proof -
  have a: "fetchRandomDog (Some flaky) JUndefined (Some 2) =
     (Inl (ApiError ''503 Service Unavailable''), [Primary, Delay, Primary])"
    by code_simp
  have a': "fetchRandomDog_strict (Some flaky) JUndefined (Some 2) =
     (Inl (ApiError ''503 Service Unavailable''), [Primary, Delay, Primary])"
    by code_simp
  have b: "attempt_body flaky (JObj []) [Primary, Delay] =
     (Raised (ApiError ''503 Service Unavailable''), [Primary, Delay, Primary])"
    by code_simp
  have c: "attempt_body flaky (JObj []) [] = (Raised TransportError, [Primary])"
    by code_simp
  have c': "attempt_body_strict flaky (JObj []) [] = (Raised TransportError, [Primary])"
    by code_simp
  have d: "(0::int) + 1 < 2" by simp
  note t = errors_escape_only_at_the_end [of flaky JUndefined "Some 2" "ApiError ''503 Service Unavailable''"
      "[Primary, Delay, Primary]" 0 2 "JObj []" "[]" TransportError "[Primary]"]
  from t c d
  have e: "attempts flaky (JObj []) 2 0 [] = attempts flaky (JObj []) 2 1 [Primary, Delay]"
    by simp
  from t c' d
  have e': "attempts_strict flaky (JObj []) 2 0 [] = attempts_strict flaky (JObj []) 2 1 [Primary, Delay]"
    by simp
  from a a' b c c' e e' show ?thesis by simp
qed

subsection \<open>C5: a missing attribute is no match\<close>

text \<open>
  C5 as stated fails on the scalar keys, in both revisions: the helper \<^verbatim>\<open>eq\<close> guards
  against null and undefined only, so the empty breed of a record equals a banned empty
  (or blank) text, and the record is excluded on that key.
\<close>

theorem empty_attribute_banned_counterexample:
  "normalizeImageObj stray = Inr stray_record \<and>
   no_data stray_record ''breed'' \<and>
   banned_values (JObj [(''breed'', JArr [JStr '' ''])]) ''breed'' = [JStr '' ''] \<and>
   isBanned stray_record (JObj [(''breed'', JArr [JStr '' ''])]) = Inr True \<and>
   isBanned stray_record (drop_key ''breed'' (JObj [(''breed'', JArr [JStr '' ''])])) = Inr False \<and>
   normalizeImageObj_strict nameless = Inr nameless_record \<and>
   no_data nameless_record ''breed'' \<and>
   isBanned_strict nameless_record (JObj [(''breed'', JArr [JStr '' ''])]) = Inr True \<and>
   isBanned_strict nameless_record (drop_key ''breed'' (JObj [(''breed'', JArr [JStr '' ''])])) = Inr False"
  by code_simp

text \<open>
  C5, amended: for every record and every ban list, if the record carries no data for
  one of the four keys and every banned value under that key is harmless (it has a text,
  which for a scalar key is not blank), then \<open>isBanned\<close> answers as it does for the ban
  list without that key: the record is not excluded on it. For the temperament the
  banned texts may be blank. The same holds for the matcher of the single-item revision,
  which counts a record without attributes as banned whatever the ban list holds.
\<close>

theorem missing_attribute_never_matches:
  assumes "k \<in> set [''breed'', ''temperament'', ''life_span'', ''weight'']"
    and "no_data item k"
    and "\<forall>b \<in> set (banned_values banList k). harmless k b"
  shows "isBanned item banList = isBanned item (drop_key k banList) \<and>
         isBanned_strict item banList = isBanned_strict item (drop_key k banList)"
proof (cases "\<exists>kvs. or_default banList = JObj kvs")
  case False
  then have "drop_key k banList = or_default banList"
    by (cases "or_default banList") (simp_all add: drop_key_def)
  then show ?thesis by (simp add: isBanned_or_default isBanned_strict_or_default)
next
  case True
  then obtain kvs where JObj: "or_default banList = JObj kvs" by blast
  let ?bl2 = "JObj (filter (\<lambda>kv. fst kv \<noteq> k) kvs)"
  have d: "drop_key k banList = ?bl2" by (simp add: drop_key_def JObj)
  have d2: "or_default ?bl2 = ?bl2" by (simp add: or_default_def)
  have d0: "or_default (JObj kvs) = JObj kvs" by (simp add: or_default_def)
  have "banned_values (JObj kvs) k = banned_values banList k"
    unfolding banned_values_def JObj d0 by (rule refl)
  with assms(3) have bv: "\<forall>b \<in> set (banned_values (JObj kvs) k). harmless k b"
    by simp
  have nd: "attribute item k = JStr [] \<or> nullish (attribute item k)"
    using assms(2) by (simp add: no_data_def)
  show ?thesis
  proof (cases "truthy item")
    case False
    then show ?thesis by (simp add: isBanned_def isBanned_strict_def)
  next
    case ti: True
    obtain a where a: "get item ''attributes'' = Inr a" using get_truthy [OF ti] by blast
    then obtain attrs where at: "js_or (get item ''attributes'') (Inr (JObj [])) = Inr attrs"
      by (cases "truthy a") (simp_all add: js_or_Inr)
    have ga: "get attrs k = Inr (attribute item k)" by (rule attrs_attribute [OF ti at])
    note s = loops_without_key [OF ga nd bv]
    have lenient: "isBanned item banList = isBanned item (drop_key k banList)"
      unfolding d isBanned_def Let_def JObj d2 at and_then_Inr s by (rule refl)
    have strict: "isBanned_strict item banList = isBanned_strict item (drop_key k banList)"
    proof (cases "truthy a")
      case False
      with ti a show ?thesis by (simp add: isBanned_strict_def and_then_Inr)
    next
      case ta: True
      note s' = loops_without_key [OF attribute_get [OF a ta] nd bv]
      show ?thesis
        unfolding d isBanned_strict_def Let_def JObj d2 a and_then_Inr s' by (rule refl)
    qed
    from lenient strict show ?thesis by simp
  qed
qed

theorem missing_attribute_never_matches_witness:
  "no_data stray_record ''breed'' \<and>
   banned_values (JObj [(''breed'', JArr [JStr ''Beagle'']), (''weight'', JArr [JStr ''7''])]) ''breed'' =
     [JStr ''Beagle''] \<and>
   harmless ''breed'' (JStr ''Beagle'') \<and>
   isBanned stray_record (JObj [(''breed'', JArr [JStr ''Beagle'']), (''weight'', JArr [JStr ''7''])]) =
     isBanned stray_record
       (drop_key ''breed'' (JObj [(''breed'', JArr [JStr ''Beagle'']), (''weight'', JArr [JStr ''7''])])) \<and>
   isBanned_strict stray_record (JObj [(''breed'', JArr [JStr ''Beagle'']), (''weight'', JArr [JStr ''7''])]) =
     isBanned_strict stray_record
       (drop_key ''breed'' (JObj [(''breed'', JArr [JStr ''Beagle'']), (''weight'', JArr [JStr ''7''])])) \<and>
   isBanned stray_record (JObj [(''breed'', JArr [JStr ''Beagle'']), (''weight'', JArr [JStr ''7''])]) = Inr False"
proof -
  have a: "no_data stray_record ''breed''" by code_simp
  have b: "banned_values (JObj [(''breed'', JArr [JStr ''Beagle'']), (''weight'', JArr [JStr ''7''])]) ''breed'' =
     [JStr ''Beagle'']" by code_simp
  have c: "harmless ''breed'' (JStr ''Beagle'')" by code_simp
  have e: "isBanned stray_record (JObj [(''breed'', JArr [JStr ''Beagle'']), (''weight'', JArr [JStr ''7''])]) = Inr False"
    by code_simp
  have "isBanned stray_record (JObj [(''breed'', JArr [JStr ''Beagle'']), (''weight'', JArr [JStr ''7''])]) =
     isBanned stray_record
       (drop_key ''breed'' (JObj [(''breed'', JArr [JStr ''Beagle'']), (''weight'', JArr [JStr ''7''])])) \<and>
     isBanned_strict stray_record (JObj [(''breed'', JArr [JStr ''Beagle'']), (''weight'', JArr [JStr ''7''])]) =
     isBanned_strict stray_record
       (drop_key ''breed'' (JObj [(''breed'', JArr [JStr ''Beagle'']), (''weight'', JArr [JStr ''7''])]))"
    using a b c by (intro missing_attribute_never_matches) simp_all
  with a b c e show ?thesis by simp
qed

subsection \<open>C6: when the detail lookup is made, and what it may return\<close>

text \<open>
  C6. (1) Every detail request in the history of an invocation is made for a candidate
  that is not excluded and has no breed data: some primary request of that history was
  answered with a batch that holds an item whose record passes \<open>isBanned\<close>, has
  \<open>hasBreed\<close> false, and has the id the request asks for. (2) When the enrichment of a
  candidate yields a record to return, that record is the normalized body of the detail
  response, it has breed data, and \<open>isBanned\<close> with the same ban list is false for it.
\<close>

theorem enrichment_guarded:
  "(fetchRandomDog (Some net) banList maxAttempts = (res, tr) \<longrightarrow> Detail i \<in> set tr \<longrightarrow>
      (\<exists>h rest status items x.
          tr = h @ Primary # rest \<and>
          net (h @ [Primary]) = Response True status (Some (JArr items)) \<and>
          x \<in> set items \<and> enrichable banList x i)) \<and>
   (enrich net bl normalized tr1 = (Some enriched, tr2) \<longrightarrow>
      has_breed enriched \<and> isBanned enriched bl = Inr False \<and>
      (\<exists>j status detailObj.
          tr2 = tr1 @ [Detail j] \<and>
          net tr2 = Response True status (Some detailObj) \<and>
          normalizeImageObj detailObj = Inr enriched))"
proof (intro conjI impI)
  assume "fetchRandomDog (Some net) banList maxAttempts = (res, tr)" and d: "Detail i \<in> set tr"
  then have "attempts net (or_default banList) (or_eight maxAttempts) 0 [] = (res, tr)"
    by (simp add: fetchRandomDog_def)
  from attempts_detail [OF this d] have "answered net banList tr i"
    by (simp add: answered_def enrichable_or_default)
  then show "\<exists>h rest status items x.
          tr = h @ Primary # rest \<and>
          net (h @ [Primary]) = Response True status (Some (JArr items)) \<and>
          x \<in> set items \<and> enrichable banList x i"
    unfolding answered_def by blast
next
  assume e: "enrich net bl normalized tr1 = (Some enriched, tr2)"
  show "has_breed enriched" by (rule enrich_has_breed [OF e])
  show "isBanned enriched bl = Inr False" by (rule enrich_Some [OF e])
  from enrich_cases [OF e]
  show "\<exists>j status detailObj.
          tr2 = tr1 @ [Detail j] \<and>
          net tr2 = Response True status (Some detailObj) \<and>
          normalizeImageObj detailObj = Inr enriched"
    by auto
qed

theorem enrichment_guarded_witness:
  "fetchRandomDog (Some kennel) JUndefined None = (Inr beagle_record, [Primary, Detail ''s1'']) \<and>
   enrichable JUndefined stray ''s1'' \<and>
   enrich kennel (JObj []) stray_record [Primary] = (Some beagle_record, [Primary, Detail ''s1'']) \<and>
   has_breed beagle_record \<and> isBanned beagle_record (JObj []) = Inr False \<and>
   (\<exists>h rest status items x.
       [Primary, Detail ''s1''] = h @ Primary # rest \<and>
       kennel (h @ [Primary]) = Response True status (Some (JArr items)) \<and>
       x \<in> set items \<and> enrichable JUndefined x ''s1'')"
proof -
  have f: "fetchRandomDog (Some kennel) JUndefined None = (Inr beagle_record, [Primary, Detail ''s1''])"
    by code_simp
  have x: "enrichable JUndefined stray ''s1''" by code_simp
  have e: "enrich kennel (JObj []) stray_record [Primary] = (Some beagle_record, [Primary, Detail ''s1''])"
    by code_simp
  have d: "Detail ''s1'' \<in> set [Primary, Detail ''s1'']" by simp
  note g = enrichment_guarded [of kennel JUndefined None "Inr beagle_record" "[Primary, Detail ''s1'']" "''s1''"
      "JObj []" stray_record "[Primary]" beagle_record "[Primary, Detail ''s1'']"]
  from g f d have "\<exists>h rest status items x.
       [Primary, Detail ''s1''] = h @ Primary # rest \<and>
       kennel (h @ [Primary]) = Response True status (Some (JArr items)) \<and>
       x \<in> set items \<and> enrichable JUndefined x ''s1''"
    by blast
  moreover from g e have "has_breed beagle_record \<and> isBanned beagle_record (JObj []) = Inr False"
    by blast
  ultimately show ?thesis using f x e by blast
qed

subsection \<open>C7: the order of preference within a batch\<close>

text \<open>
  C7, for the scan of one batch. (1) When the scan has gone through the candidates
  before \<open>x\<close> without returning or throwing, and the record of \<open>x\<close> is not excluded and
  has breed data, the scan returns that record at once: the history gets no further
  event, the candidates after \<open>x\<close> are not looked at, and whatever fallback is held is
  dropped; none of the candidates before \<open>x\<close> was a non-excluded one with breed data.
  (2) A fallback that is held is never replaced. (3) The fallback the scan ends with is
  the record of the first candidate that is not excluded: every candidate before it is
  excluded, and it has no breed data. (4) A record without breed data that an attempt
  accepts is the fallback: the scan went through the entire batch, and every candidate
  of the batch was excluded or without breed data (with no record from its enrichment).
\<close>

theorem batch_preference:
  "(scan net bl pre fallback tr = (Completed fb, tr1) \<longrightarrow>
    normalizeImageObj x = Inr normalized \<longrightarrow> truthy normalized \<longrightarrow>
    isBanned normalized bl = Inr False \<longrightarrow> has_breed normalized \<longrightarrow>
      scan net bl (pre @ x # post) fallback tr = (Returned normalized, tr1) \<and>
      list_all (\<lambda>y. excluded bl y \<or> incomplete bl y) pre) \<and>
   (scan net bl items held tr2 = (Completed fb2, tr3) \<longrightarrow> truthy held \<longrightarrow> fb2 = held) \<and>
   (scan net bl items JNull tr2 = (Completed fb3, tr3) \<longrightarrow> truthy fb3 \<longrightarrow>
      (\<exists>before y after.
          items = before @ y # after \<and> list_all (excluded bl) before \<and>
          normalizeImageObj y = Inr fb3 \<and> incomplete bl y)) \<and>
   (attempt_body net bl tr4 = (Accepted r, tr5) \<longrightarrow> \<not> has_breed r \<longrightarrow>
      (\<exists>status batch.
          net (tr4 @ [Primary]) = Response True status (Some (JArr batch)) \<and>
          scan net bl batch JNull (tr4 @ [Primary]) = (Completed r, tr5) \<and>
          list_all (\<lambda>y. excluded bl y \<or> incomplete bl y) batch))"
proof (intro conjI impI)
  assume p: "scan net bl pre fallback tr = (Completed fb, tr1)"
    and x: "normalizeImageObj x = Inr normalized" "truthy normalized"
      "isBanned normalized bl = Inr False" "has_breed normalized"
  have "scan net bl (pre @ x # post) fallback tr = scan net bl (x # post) fb tr1"
    by (rule scan_append [OF p])
  also have "\<dots> = (Returned normalized, tr1)" by (rule scan_complete_head [OF x])
  finally show "scan net bl (pre @ x # post) fallback tr = (Returned normalized, tr1)" .
  show "list_all (\<lambda>y. excluded bl y \<or> incomplete bl y) pre" by (rule scan_Completed_all [OF p])
next
  assume "scan net bl items held tr2 = (Completed fb2, tr3)" and "truthy held"
  then show "fb2 = held" by (rule scan_keeps_fallback)
next
  assume "scan net bl items JNull tr2 = (Completed fb3, tr3)" and "truthy fb3"
  then show "\<exists>before y after.
          items = before @ y # after \<and> list_all (excluded bl) before \<and>
          normalizeImageObj y = Inr fb3 \<and> incomplete bl y"
    using scan_first_fallback [of net bl items JNull tr2 fb3 tr3] by simp
next
  assume "attempt_body net bl tr4 = (Accepted r, tr5)" and "\<not> has_breed r"
  then show "\<exists>status batch.
          net (tr4 @ [Primary]) = Response True status (Some (JArr batch)) \<and>
          scan net bl batch JNull (tr4 @ [Primary]) = (Completed r, tr5) \<and>
          list_all (\<lambda>y. excluded bl y \<or> incomplete bl y) batch"
    by (rule attempt_body_fallback)
qed

theorem batch_preference_witness:
  "scan pound beagle_ban [beagle, stray] JNull [Primary] =
     (Completed stray_record, [Primary, Detail ''s1'']) \<and>
   normalizeImageObj poodle = Inr poodle_record \<and>
   isBanned poodle_record beagle_ban = Inr False \<and> has_breed poodle_record \<and>
   scan pound beagle_ban ([beagle, stray] @ poodle # [stray2]) JNull [Primary] =
     (Returned poodle_record, [Primary, Detail ''s1'']) \<and>
   scan pound beagle_ban [stray2] stray_record [Primary, Detail ''s1''] =
     (Completed stray_record, [Primary, Detail ''s1'', Detail ''s2'']) \<and>
   scan pound beagle_ban [beagle, stray, stray2] JNull [Primary] =
     (Completed stray_record, [Primary, Detail ''s1'', Detail ''s2'']) \<and>
   attempt_body pound beagle_ban [] =
     (Accepted stray_record, [Primary, Detail ''s1'', Detail ''s2'']) \<and>
   \<not> has_breed stray_record \<and>
   list_all (\<lambda>y. excluded beagle_ban y \<or> incomplete beagle_ban y) [beagle, stray, stray2]"
proof -
  have a: "scan pound beagle_ban [beagle, stray] JNull [Primary] =
     (Completed stray_record, [Primary, Detail ''s1''])" by code_simp
  have b: "normalizeImageObj poodle = Inr poodle_record" by code_simp
  have c: "truthy poodle_record" by code_simp
  have d: "isBanned poodle_record beagle_ban = Inr False" by code_simp
  have e: "has_breed poodle_record" by code_simp
  have f: "scan pound beagle_ban [stray2] stray_record [Primary, Detail ''s1''] =
     (Completed stray_record, [Primary, Detail ''s1'', Detail ''s2''])" by code_simp
  have g: "scan pound beagle_ban [beagle, stray, stray2] JNull [Primary] =
     (Completed stray_record, [Primary, Detail ''s1'', Detail ''s2''])" by code_simp
  have h: "attempt_body pound beagle_ban [] =
     (Accepted stray_record, [Primary, Detail ''s1'', Detail ''s2''])" by code_simp
  have i: "\<not> has_breed stray_record" by code_simp
  have j: "pound ([] @ [Primary]) = Response True ''200 OK'' (Some (JArr [beagle, stray, stray2]))"
    by code_simp
  note t = batch_preference [of pound beagle_ban "[beagle, stray]" JNull "[Primary]" stray_record
      "[Primary, Detail ''s1'']" poodle poodle_record "[stray2]"
      "[beagle, stray, stray2]" stray_record "[Primary]" stray_record
      "[Primary, Detail ''s1'', Detail ''s2'']" stray_record "[]" stray_record
      "[Primary, Detail ''s1'', Detail ''s2'']"]
  from t a b c d e have k: "scan pound beagle_ban ([beagle, stray] @ poodle # [stray2]) JNull [Primary] =
     (Returned poodle_record, [Primary, Detail ''s1''])" by blast
  from t h i j have l: "list_all (\<lambda>y. excluded beagle_ban y \<or> incomplete beagle_ban y) [beagle, stray, stray2]"
    by auto
  from a b d e k f g h i l show ?thesis by blast
qed

subsection \<open>C8: the fixed attribute keys\<close>

text \<open>
  C8. \<open>normalizeImageObj\<close> never throws. A result that is not null is a record whose
  \<open>attributes\<close> is an object with exactly the keys breed, temperament, life_span and
  weight, in this order and once each. Each of the four values is truthy or the empty
  string, never null or undefined, and all four are the empty string when the raw item
  has no breed object. The normalizer of the single-item revision gives null for such an
  item; its records have the same four keys, each value truthy or the empty string.
\<close>

theorem normalized_attribute_keys:
  "(\<exists>normalized. normalizeImageObj imgObj = Inr normalized \<and>
     (normalized \<noteq> JNull \<longrightarrow>
        (\<exists>attrs breedObj.
            get normalized ''attributes'' = Inr (JObj attrs) \<and>
            map fst attrs = [''breed'', ''temperament'', ''life_span'', ''weight''] \<and>
            (\<forall>v \<in> set (map snd attrs). truthy v \<or> v = JStr []) \<and>
            first_breed imgObj = Inr breedObj \<and>
            (\<not> truthy breedObj \<longrightarrow> (\<forall>v \<in> set (map snd attrs). v = JStr []))))) \<and>
   (\<exists>normalized. normalizeImageObj_strict imgObj = Inr normalized \<and>
     (normalized \<noteq> JNull \<longrightarrow>
        (\<exists>attrs.
            get normalized ''attributes'' = Inr (JObj attrs) \<and>
            map fst attrs = [''breed'', ''temperament'', ''life_span'', ''weight''] \<and>
            (\<forall>v \<in> set (map snd attrs). truthy v \<or> v = JStr []))))"
proof (intro conjI)
  show "\<exists>normalized. normalizeImageObj imgObj = Inr normalized \<and>
     (normalized \<noteq> JNull \<longrightarrow>
        (\<exists>attrs breedObj.
            get normalized ''attributes'' = Inr (JObj attrs) \<and>
            map fst attrs = [''breed'', ''temperament'', ''life_span'', ''weight''] \<and>
            (\<forall>v \<in> set (map snd attrs). truthy v \<or> v = JStr []) \<and>
            first_breed imgObj = Inr breedObj \<and>
            (\<not> truthy breedObj \<longrightarrow> (\<forall>v \<in> set (map snd attrs). v = JStr []))))"
  proof (cases "truthy imgObj")
    case False
    then show ?thesis by (simp add: normalizeImageObj_falsy)
  next
    case True
    from normalizeImageObj_record [OF True] obtain i u b n t l w where
      r: "first_breed imgObj = Inr b"
        "normalizeImageObj imgObj =
           Inr (JObj [(''id'', i), (''imageUrl'', u),
                      (''attributes'', JObj [(''breed'', n), (''temperament'', t),
                                             (''life_span'', l), (''weight'', w)]),
                      (''hasBreed'', JBool (truthy b))])"
        "truthy n \<or> n = JStr []" "truthy t \<or> t = JStr []"
        "truthy l \<or> l = JStr []" "truthy w \<or> w = JStr []"
        "\<not> truthy b \<longrightarrow> n = JStr [] \<and> t = JStr [] \<and> l = JStr [] \<and> w = JStr []"
      by blast
    let ?attrs = "[(''breed'', n), (''temperament'', t), (''life_span'', l), (''weight'', w)]"
    let ?rec = "JObj [(''id'', i), (''imageUrl'', u), (''attributes'', JObj ?attrs),
                      (''hasBreed'', JBool (truthy b))]"
    show ?thesis
    proof (intro exI conjI impI)
      show "normalizeImageObj imgObj = Inr ?rec" by (rule r(2))
      show "get ?rec ''attributes'' = Inr (JObj ?attrs)" by simp
      show "map fst ?attrs = [''breed'', ''temperament'', ''life_span'', ''weight'']" by simp
      show "\<forall>v \<in> set (map snd ?attrs). truthy v \<or> v = JStr []" using r(3-6) by simp
      show "first_breed imgObj = Inr b" by (rule r(1))
      show "\<forall>v \<in> set (map snd ?attrs). v = JStr []" if "\<not> truthy b" using r(7) that by simp
    qed
  qed
  from normalizeImageObj_strict_cases [of imgObj]
  show "\<exists>normalized. normalizeImageObj_strict imgObj = Inr normalized \<and>
     (normalized \<noteq> JNull \<longrightarrow>
        (\<exists>attrs.
            get normalized ''attributes'' = Inr (JObj attrs) \<and>
            map fst attrs = [''breed'', ''temperament'', ''life_span'', ''weight''] \<and>
            (\<forall>v \<in> set (map snd attrs). truthy v \<or> v = JStr [])))"
  proof
    assume "normalizeImageObj_strict imgObj = Inr JNull"
    then show ?thesis by simp
  next
    assume "\<exists>i u n t l w.
      normalizeImageObj_strict imgObj =
        Inr (JObj [(''id'', i), (''imageUrl'', u),
                   (''attributes'', JObj [(''breed'', n), (''temperament'', t),
                                          (''life_span'', l), (''weight'', w)])]) \<and>
      (truthy n \<or> n = JStr []) \<and> (truthy t \<or> t = JStr []) \<and>
      (truthy l \<or> l = JStr []) \<and> (truthy w \<or> w = JStr [])"
    then obtain i u n t l w where
      r: "normalizeImageObj_strict imgObj =
        Inr (JObj [(''id'', i), (''imageUrl'', u),
                   (''attributes'', JObj [(''breed'', n), (''temperament'', t),
                                          (''life_span'', l), (''weight'', w)])])"
      "truthy n \<or> n = JStr []" "truthy t \<or> t = JStr []"
      "truthy l \<or> l = JStr []" "truthy w \<or> w = JStr []"
      by blast
    let ?attrs = "[(''breed'', n), (''temperament'', t), (''life_span'', l), (''weight'', w)]"
    let ?rec = "JObj [(''id'', i), (''imageUrl'', u), (''attributes'', JObj ?attrs)]"
    show ?thesis
    proof (intro exI conjI impI)
      show "normalizeImageObj_strict imgObj = Inr ?rec" by (rule r(1))
      show "get ?rec ''attributes'' = Inr (JObj ?attrs)" by simp
      show "map fst ?attrs = [''breed'', ''temperament'', ''life_span'', ''weight'']" by simp
      show "\<forall>v \<in> set (map snd ?attrs). truthy v \<or> v = JStr []" using r(2-5) by simp
    qed
  qed
qed

theorem normalized_attribute_keys_witness:
  "normalizeImageObj stray =
     Inr (JObj [(''id'', JStr ''s1''), (''imageUrl'', JStr ''u2''),
                (''attributes'', JObj [(''breed'', JStr []), (''temperament'', JStr []),
                                       (''life_span'', JStr []), (''weight'', JStr [])]),
                (''hasBreed'', JBool False)]) \<and>
   first_breed stray = Inr JNull \<and>
   normalizeImageObj_strict stray = Inr JNull \<and>
   normalizeImageObj_strict nameless = Inr nameless_record \<and>
   (\<exists>normalized. normalizeImageObj stray = Inr normalized \<and> normalized \<noteq> JNull \<and>
      (\<exists>attrs. get normalized ''attributes'' = Inr (JObj attrs) \<and>
         map fst attrs = [''breed'', ''temperament'', ''life_span'', ''weight''])) \<and>
   (\<exists>normalized. normalizeImageObj_strict nameless = Inr normalized \<and> normalized \<noteq> JNull \<and>
      (\<exists>attrs. get normalized ''attributes'' = Inr (JObj attrs) \<and>
         map fst attrs = [''breed'', ''temperament'', ''life_span'', ''weight'']))"
proof -
  have n: "normalizeImageObj stray =
     Inr (JObj [(''id'', JStr ''s1''), (''imageUrl'', JStr ''u2''),
                (''attributes'', JObj [(''breed'', JStr []), (''temperament'', JStr []),
                                       (''life_span'', JStr []), (''weight'', JStr [])]),
                (''hasBreed'', JBool False)])"
    by code_simp
  have b: "first_breed stray = Inr JNull" by code_simp
  have s: "normalizeImageObj_strict stray = Inr JNull" by code_simp
  have m: "normalizeImageObj_strict nameless = Inr nameless_record" by code_simp
  have m': "nameless_record \<noteq> JNull" by (simp add: nameless_record_def)
  from normalized_attribute_keys [of stray] n
  have "\<exists>normalized. normalizeImageObj stray = Inr normalized \<and> normalized \<noteq> JNull \<and>
      (\<exists>attrs. get normalized ''attributes'' = Inr (JObj attrs) \<and>
         map fst attrs = [''breed'', ''temperament'', ''life_span'', ''weight''])"
    by auto
  moreover from normalized_attribute_keys [of nameless] m m'
  have "\<exists>normalized. normalizeImageObj_strict nameless = Inr normalized \<and> normalized \<noteq> JNull \<and>
      (\<exists>attrs. get normalized ''attributes'' = Inr (JObj attrs) \<and>
         map fst attrs = [''breed'', ''temperament'', ''life_span'', ''weight''])"
    by auto
  ultimately show ?thesis using n b s m by blast
qed

subsection \<open>C9: no budget, no calls\<close>

text \<open>
  C9 as stated: with \<open>maxAttempts \<le> 0\<close> every invocation makes no network call and
  rejects with the exhaustion error. In both revisions the check for \<^verbatim>\<open>fetch\<close> comes
  before the loop: in a runtime without it the invocation rejects with the capability
  error instead.
\<close>

theorem no_budget_capability_counterexample:
  "fetchRandomDog None JUndefined (Some 0) = (Inl CapabilityError, []) \<and>
   fetchRandomDog_strict None JUndefined (Some 0) = (Inl CapabilityError, [])"
  by (simp add: fetchRandomDog_def fetchRandomDog_strict_def)

text \<open>
  C9, amended: with \<open>maxAttempts \<le> 0\<close> the history of the invocation is empty (no
  primary request, no detail request, no pause), and the invocation rejects with the
  exhaustion error in a runtime that has \<^verbatim>\<open>fetch\<close>, with the capability error in
  one that has not. This holds for both revisions.
\<close>

theorem no_budget_no_calls:
  "m \<le> 0 \<Longrightarrow>
   fetchRandomDog fetch banList (Some m) =
     (Inl (if fetch = None then CapabilityError else ExhaustionError), []) \<and>
   fetchRandomDog_strict fetch banList (Some m) =
     (Inl (if fetch = None then CapabilityError else ExhaustionError), [])"
  by (cases fetch)
    (simp_all add: fetchRandomDog_def fetchRandomDog_strict_def or_eight_def
      attempts.simps attempts_strict.simps)

theorem no_budget_no_calls_witness:
  "fetchRandomDog (Some (steady (JArr [beagle]))) JUndefined (Some (- 3)) =
     (Inl ExhaustionError, []) \<and>
   fetchRandomDog_strict (Some (steady (JArr [beagle]))) JUndefined (Some (- 3)) =
     (Inl ExhaustionError, [])"
  using no_budget_no_calls [of "- 3" "Some (steady (JArr [beagle]))" JUndefined]
  by simp

subsection \<open>C10: the matcher reads four keys of the ban list\<close>

text \<open>
  C10. Two ban lists that agree on what they hold under breed, temperament, life_span
  and weight give the same answer for every record, in either revision: the same
  boolean, or the same throw. What a ban list holds under any other key has no
  influence. (An undefined ban list is read as the empty object, as the default of the
  parameter has it.)
\<close>

theorem isBanned_reads_four_keys:
  assumes "\<forall>k \<in> set [''breed'', ''temperament'', ''life_span'', ''weight''].
             get (or_default banList1) k = get (or_default banList2) k"
  shows "isBanned item banList1 = isBanned item banList2 \<and>
         isBanned_strict item banList1 = isBanned_strict item banList2"
proof -
  have s: "scalar_keys [''breed'', ''life_span'', ''weight''] attrs (or_default banList1) =
        scalar_keys [''breed'', ''life_span'', ''weight''] attrs (or_default banList2)" for attrs
    using assms by (intro scalar_keys_cong) auto
  have t: "temperament_banned attrs (or_default banList1) =
                 temperament_banned attrs (or_default banList2)" for attrs
    using assms by (intro temperament_banned_cong) simp
  have "isBanned item banList1 = isBanned item banList2"
    unfolding isBanned_def Let_def s t by (rule refl)
  moreover have "isBanned_strict item banList1 = isBanned_strict item banList2"
    unfolding isBanned_strict_def Let_def s t by (rule refl)
  ultimately show ?thesis by simp
qed

theorem isBanned_reads_four_keys_witness:
  "noisy_ban \<noteq> quiet_ban \<and>
   isBanned beagle_record noisy_ban = isBanned beagle_record quiet_ban \<and>
   isBanned_strict beagle_record noisy_ban = isBanned_strict beagle_record quiet_ban \<and>
   isBanned beagle_record quiet_ban = Inr False"
proof -
  have "\<forall>k \<in> set [''breed'', ''temperament'', ''life_span'', ''weight''].
          get (or_default noisy_ban) k = get (or_default quiet_ban) k"
    by (simp add: noisy_ban_def quiet_ban_def or_default_def)
  from isBanned_reads_four_keys [OF this, of beagle_record]
  have "isBanned beagle_record noisy_ban = isBanned beagle_record quiet_ban \<and>
        isBanned_strict beagle_record noisy_ban = isBanned_strict beagle_record quiet_ban" .
  moreover have "noisy_ban \<noteq> quiet_ban" by (simp add: noisy_ban_def quiet_ban_def)
  moreover have "isBanned beagle_record quiet_ban = Inr False" by code_simp
  ultimately show ?thesis by simp
qed

end
